(* ===== verification/Prelude.thy ===== *)
theory Prelude
  imports Main
begin

text \<open>
  Shared vocabulary of the development. A call of the Go program that has an effect is a
  function from a world to a result and the next world (\<open>io\<close>); the world stands for
  everything outside the function: the database, Redis, the clock, the entropy source. The
  theory also holds the collection of case splits of the components and the facts on lists and maps
  that several components use.
\<close>

type_synonym byte_string = string
type_synonym ('w, 'a) io = "'w \<Rightarrow> 'a \<times> 'w"

named_theorems go_splits \<open>case splits of results of calls\<close>

lemmas [go_splits] = prod.splits sum.splits option.splits if_splits

section \<open>Lists\<close>

lemma take_append_take: "take n (take n xs @ ys) = take n (xs @ ys)"
  by (cases "length xs \<le> n") simp_all

lemma set_take_filter_subset: "set (take n (filter P xs)) \<subseteq> {x \<in> set xs. P x}"
  by (auto dest: in_set_takeD)

lemma list_all_take: "list_all P xs \<Longrightarrow> list_all P (take n xs)"
  by (auto simp: list_all_iff dest: in_set_takeD)

section \<open>Maps ordered by inclusion\<close>

lemma map_le_trans_upd:
  assumes "m' \<subseteq>\<^sub>m m(k \<mapsto> v)" and "m \<subseteq>\<^sub>m t"
  shows "m' \<subseteq>\<^sub>m t(k \<mapsto> v)"
  using assms by (rule_tac map_le_trans) (auto intro: map_le_upd)

lemma map_le_fresh:
  assumes "m \<subseteq>\<^sub>m t" and "t k = None"
  shows "m \<subseteq>\<^sub>m t(k \<mapsto> v)"
  using assms by (auto simp: map_le_def dom_def)

lemma map_leD: "m \<subseteq>\<^sub>m t \<Longrightarrow> m k = Some v \<Longrightarrow> t k = Some v"
  by (auto simp: map_le_def dom_def)

lemma map_le_noneD: "m \<subseteq>\<^sub>m t \<Longrightarrow> t k = None \<Longrightarrow> m k = None"
  by (cases "m k") (auto dest: map_leD)

end
