(* ===== verification/Go_Errors.thy ===== *)
theory Go_Errors
  imports Prelude
begin

text \<open>
  Go's error values. The package-level \<open>errors.New\<close> variables of the repository and of the
  libraries it compares against are compared by identity, so each is a constructor of
  \<open>sentinel\<close>; an error made at run time (\<open>Dynamic\<close>) is identical to none of them, and
  \<open>fmt.Errorf\<close> with \<open>%w\<close> is \<open>Wrap\<close> with the text before and after the wrapped
  error. \<open>outcome\<close> is what a call that can also panic or never return comes to.
\<close>

datatype sentinel =
    ErrURLNotFound | ErrURLExist | ErrEmptyAlias | ErrInvalidURL
  | ErrInvalidConfig
  | ErrMissingToken | ErrInvalidToken | ErrMissingApplicationID | ErrMissingSecret
  | ErrInvalidCredentials | ErrUserExists | ErrRefreshInvalid
  | SSOErrMissingApplicationID | ErrMissingAddress
  | IoEOF | IoErrUnexpectedEOF | OsErrNotExist | HttpErrServerClosed
  | ContextCanceled | ContextDeadlineExceeded
  | PgxErrNoRows | RedisNil | MigrateErrNoChange

text \<open>The gRPC status codes the sso client tells apart, and the others.\<close>

datatype grpc_code = InvalidArgument | AlreadyExists | Unauthenticated | OtherCode nat

datatype go_error =
    Sentinel sentinel
  | Dynamic string
  | PgError string string
  | StatusError grpc_code string
  | Wrap string go_error string

text \<open>The texts of the sentinels, package by package.\<close>

fun domain_errors :: "sentinel \<Rightarrow> string option" where
  "domain_errors ErrURLNotFound = Some ''url not found''"
| "domain_errors ErrURLExist = Some ''url already exist''"
| "domain_errors ErrEmptyAlias = Some ''empty alias''"
| "domain_errors ErrInvalidURL = Some ''empty url''"
| "domain_errors _ = None"

fun service_errors :: "sentinel \<Rightarrow> string option" where
  "service_errors ErrInvalidConfig = Some ''service: invalid config''"
| "service_errors _ = None"

fun authn_errors :: "sentinel \<Rightarrow> string option" where
  "authn_errors ErrMissingToken = Some ''authn: missing bearer token''"
| "authn_errors ErrInvalidToken = Some ''authn: invalid or expired token''"
| "authn_errors ErrMissingApplicationID = Some ''authn: application id must be non-zero''"
| "authn_errors ErrMissingSecret = Some ''authn: app secret must not be empty''"
| "authn_errors _ = None"

fun ssoclient_errors :: "sentinel \<Rightarrow> string option" where
  "ssoclient_errors ErrInvalidCredentials = Some ''sso: invalid email or password''"
| "ssoclient_errors ErrUserExists = Some ''sso: user already exists''"
| "ssoclient_errors ErrRefreshInvalid = Some ''sso: refresh token invalid or expired''"
| "ssoclient_errors SSOErrMissingApplicationID =
     Some ''ssoclient: application id must be non-zero''"
| "ssoclient_errors ErrMissingAddress = Some ''ssoclient: address must not be empty''"
| "ssoclient_errors _ = None"

definition sentinel_text :: "sentinel \<Rightarrow> string option" where
  "sentinel_text s =
     (case domain_errors s of Some t \<Rightarrow> Some t | None \<Rightarrow>
     (case service_errors s of Some t \<Rightarrow> Some t | None \<Rightarrow>
     (case authn_errors s of Some t \<Rightarrow> Some t | None \<Rightarrow> ssoclient_errors s)))"

text \<open>
  \<open>errors.Is\<close> against a sentinel and \<open>errors.As\<close> against \<open>*pgconn.PgError\<close>: both
  walk the chain of wrapped errors.
\<close>

fun errors_Is :: "go_error \<Rightarrow> sentinel \<Rightarrow> bool" where
  "errors_Is (Sentinel s) t = (s = t)"
| "errors_Is (Wrap _ e _) t = errors_Is e t"
| "errors_Is _ _ = False"

fun errors_As_PgError :: "go_error \<Rightarrow> (string \<times> string) option" where
  "errors_As_PgError (PgError code constraint) = Some (code, constraint)"
| "errors_As_PgError (Wrap _ e _) = errors_As_PgError e"
| "errors_As_PgError _ = None"

text \<open>
  \<open>err.Error()\<close>. The text of an error of a library is the parameter \<open>foreign\<close>.
\<close>

fun err_Error :: "(go_error \<Rightarrow> string) \<Rightarrow> go_error \<Rightarrow> string" where
  "err_Error foreign (Sentinel s) =
     (case sentinel_text s of Some t \<Rightarrow> t | None \<Rightarrow> foreign (Sentinel s))"
| "err_Error foreign (Dynamic t) = t"
| "err_Error foreign (Wrap p e q) = p @ err_Error foreign e @ q"
| "err_Error foreign e = foreign e"

text \<open>
  \<open>status.FromError\<close>: the status of a gRPC error, or the code of one it wraps with the text of
  the whole error as its message.
\<close>

fun status_code :: "go_error \<Rightarrow> grpc_code option" where
  "status_code (StatusError c m) = Some c"
| "status_code (Wrap _ e _) = status_code e"
| "status_code _ = None"

definition status_FromError :: "(go_error \<Rightarrow> string) \<Rightarrow> go_error \<Rightarrow> (grpc_code \<times> string) option" where
  "status_FromError foreign e =
     (case e of
        StatusError c m \<Rightarrow> Some (c, m)
      | _ \<Rightarrow> map_option (\<lambda>c. (c, err_Error foreign e)) (status_code e))"

lemma status_FromError_code: "map_option fst (status_FromError foreign e) = status_code e"
  by (cases e) (auto simp: status_FromError_def option.map_comp comp_def option.map_ident)

text \<open>\<open>fmt.Errorf("%s: %w", op, err)\<close>, the wrapping every layer of the repository does.\<close>

definition op_wrap :: "string \<Rightarrow> go_error \<Rightarrow> go_error" where
  "op_wrap op e = Wrap (op @ '': '') e []"

lemma errors_Is_op_wrap [simp]: "errors_Is (op_wrap op e) t = errors_Is e t"
  by (simp add: op_wrap_def)

lemma errors_As_op_wrap [simp]: "errors_As_PgError (op_wrap op e) = errors_As_PgError e"
  by (simp add: op_wrap_def)

lemma op_wrap_text: "err_Error f (op_wrap op e) = op @ '': '' @ err_Error f e"
  by (simp add: op_wrap_def)

lemma errors_Is_unique: "errors_Is e s \<Longrightarrow> errors_Is e t \<Longrightarrow> s = t"
  by (induction e s rule: errors_Is.induct) auto

lemma errors_Is_not_As: "errors_Is e s \<Longrightarrow> errors_As_PgError e = None"
  by (induction e s rule: errors_Is.induct) auto

section \<open>Outcomes of a call\<close>

datatype 'a outcome = Ok 'a | Err go_error | Panic string | Diverges

fun map_outcome_err :: "(go_error \<Rightarrow> go_error) \<Rightarrow> 'a outcome \<Rightarrow> 'a outcome" where
  "map_outcome_err f (Err e) = Err (f e)"
| "map_outcome_err f r = r"

lemma map_outcome_err_Ok [simp]: "map_outcome_err f r = Ok x \<longleftrightarrow> r = Ok x"
  by (cases r) auto

lemmas [go_splits] = outcome.splits

section \<open>Decimal formatting (the verb \<open>%d\<close>)\<close>

definition digit_char :: "nat \<Rightarrow> char" where
  "digit_char d = char_of (48 + d)"

fun show_nat :: "nat \<Rightarrow> string" where
  "show_nat n = (if n < 10 then [digit_char n] else show_nat (n div 10) @ [digit_char (n mod 10)])"

declare show_nat.simps [simp del]

definition show_int :: "int \<Rightarrow> string" where
  "show_int i = (if i < 0 then CHR ''-'' # show_nat (nat (- i)) else show_nat (nat i))"


text \<open>Reading the digits back.\<close>

definition read_nat :: "string \<Rightarrow> nat" where
  "read_nat s = foldl (\<lambda>n c. 10 * n + (of_char c - 48)) 0 s"

lemma of_digit_char: "d < 10 \<Longrightarrow> (of_char (digit_char d) :: nat) = 48 + d"
  by (simp add: digit_char_def of_char_mod_256)

lemma read_show_nat [simp]: "read_nat (show_nat n) = n"
proof (induction n rule: show_nat.induct)
  case (1 n)
  show ?case
  proof (cases "n < 10")
    case True
    then show ?thesis by (subst show_nat.simps) (simp add: read_nat_def of_digit_char)
  next
    case False
    with 1 have "read_nat (show_nat (n div 10)) = n div 10" by simp
    with False show ?thesis by (subst show_nat.simps) (simp add: read_nat_def of_digit_char)
  qed
qed

lemma show_nat_inj [simp]: "show_nat m = show_nat n \<longleftrightarrow> m = n"
  by (metis read_show_nat)

end
