(* ===== verification/Go_Std.thy ===== *)
theory Go_Std
  imports Go_Errors "HOL-Library.Word"
begin

text \<open>
  What the repository uses of Go's standard library: \<open>strings\<close>, \<open>net/url\<close>,
  \<open>net.SplitHostPort\<close>, \<open>path.Clean\<close>, the \<open>Location\<close> of \<open>http.Redirect\<close>,
  \<open>time\<close> and \<open>context\<close>. A Go string is a sequence of bytes, here a list of characters.
\<close>

section \<open>Package \<open>strings\<close>\<close>

definition HasPrefix :: "string \<Rightarrow> string \<Rightarrow> bool" where
  "HasPrefix s p \<longleftrightarrow> take (length p) s = p"

definition HasSuffix :: "string \<Rightarrow> string \<Rightarrow> bool" where
  "HasSuffix s p \<longleftrightarrow> HasPrefix (rev s) (rev p)"

definition TrimPrefix :: "string \<Rightarrow> string \<Rightarrow> string" where
  "TrimPrefix s p = (if HasPrefix s p then drop (length p) s else s)"

fun IndexByte :: "string \<Rightarrow> char \<Rightarrow> nat option" where
  "IndexByte [] c = None"
| "IndexByte (x # xs) c = (if x = c then Some 0 else map_option Suc (IndexByte xs c))"

definition LastIndexByte :: "string \<Rightarrow> char \<Rightarrow> nat option" where
  "LastIndexByte s c = map_option (\<lambda>i. length s - Suc i) (IndexByte (rev s) c)"

text \<open>\<open>strings.Cut\<close> with a one-byte separator: the parts before and after the first one.\<close>

definition Cut :: "string \<Rightarrow> char \<Rightarrow> string \<times> string" where
  "Cut s c = (case IndexByte s c of Some i \<Rightarrow> (take i s, drop (Suc i) s) | None \<Rightarrow> (s, []))"

text \<open>\<open>strings.ToLower\<close> on ASCII text, the only text it is applied to.\<close>

definition lower_char :: "char \<Rightarrow> char" where
  "lower_char c = (let n = of_char c :: nat in if 65 \<le> n \<and> n \<le> 90 then char_of (n + 32) else c)"

definition ToLower :: "string \<Rightarrow> string" where
  "ToLower s = map lower_char s"

lemma HasPrefix_append [simp]: "HasPrefix (p @ s) p"
  by (simp add: HasPrefix_def)

lemma HasPrefix_iff: "HasPrefix s p \<longleftrightarrow> (\<exists>t. s = p @ t)"
  by (metis HasPrefix_append HasPrefix_def append_take_drop_id)

lemma TrimPrefix_append [simp]: "TrimPrefix (p @ s) p = s"
  by (simp add: TrimPrefix_def)

lemma HasPrefix_TrimPrefix: "HasPrefix s p \<Longrightarrow> s = p @ TrimPrefix s p"
  by (auto simp: HasPrefix_iff)

lemma IndexByte_bound: "IndexByte s c = Some i \<Longrightarrow> i < length s"
  by (induction s c arbitrary: i rule: IndexByte.induct) (auto split: if_splits)

lemma IndexByte_None: "IndexByte s c = None \<longleftrightarrow> c \<notin> set s"
  by (induction s c rule: IndexByte.induct) auto

lemma Cut_append: "c \<notin> set p \<Longrightarrow> Cut (p @ c # s) c = (p, s)"
proof -
  assume "c \<notin> set p"
  then have "IndexByte (p @ c # s) c = Some (length p)" by (induction p) auto
  then show ?thesis by (simp add: Cut_def)
qed

lemma Cut_absent: "c \<notin> set s \<Longrightarrow> Cut s c = (s, [])"
  by (simp add: Cut_def IndexByte_None [symmetric])

lemma Cut_fst_set: "c \<notin> set (fst (Cut s c)) \<and> set (fst (Cut s c)) \<subseteq> set s"
proof (cases "c \<in> set s")
  case True
  then obtain p t where "s = p @ c # t" "c \<notin> set p" by (auto dest: split_list_first)
  then show ?thesis by (auto simp: Cut_append)
qed (simp add: Cut_absent)

subsection \<open>\<open>strings.TrimSpace\<close>\<close>

text \<open>
  \<open>unicode.IsSpace\<close> holds of six ASCII characters and of the code points U+0085, U+00A0,
  U+1680, U+2000 to U+200A, U+2028, U+2029, U+202F, U+205F and U+3000; these are their UTF-8
  encodings. Trimming removes such sequences from both ends.
\<close>

definition ascii_spaces :: "string list" where
  "ascii_spaces = [[CHR 0x09], [CHR 0x0A], [CHR 0x0B], [CHR 0x0C], [CHR 0x0D], [CHR 0x20]]"

definition unicode_spaces :: "string list" where
  "unicode_spaces =
     [[CHR 0xC2, CHR 0x85], [CHR 0xC2, CHR 0xA0], [CHR 0xE1, CHR 0x9A, CHR 0x80]] @
     map (\<lambda>n. [CHR 0xE2, CHR 0x80, char_of (n :: nat)]) ([128..<139] @ [168, 169, 175]) @
     [[CHR 0xE2, CHR 0x81, CHR 0x9F], [CHR 0xE3, CHR 0x80, CHR 0x80]]"

definition spaces :: "string list" where
  "spaces = ascii_spaces @ unicode_spaces"

function strip_left :: "string list \<Rightarrow> string \<Rightarrow> string" where
  "strip_left seqs s =
     (case find (\<lambda>q. q \<noteq> [] \<and> HasPrefix s q) seqs of
        Some q \<Rightarrow> strip_left seqs (drop (length q) s)
      | None \<Rightarrow> s)"
  by pat_completeness auto
termination
proof (relation "measure (length \<circ> snd)")
  fix seqs s q
  assume "find (\<lambda>q. q \<noteq> [] \<and> HasPrefix s q) seqs = Some q"
  then have "q \<noteq> []" "HasPrefix s q" by (auto simp: find_Some_iff)
  then show "((seqs, drop (length q) s), seqs, s) \<in> measure (length \<circ> snd)"
    by (cases s) (auto simp: HasPrefix_def)
qed simp

declare strip_left.simps [simp del]

definition TrimSpace :: "string \<Rightarrow> string" where
  "TrimSpace s = rev (strip_left (map rev spaces) (rev (strip_left spaces s)))"

definition starts_with_any :: "string list \<Rightarrow> string \<Rightarrow> bool" where
  "starts_with_any seqs s \<longleftrightarrow> (\<exists>q \<in> set seqs. q \<noteq> [] \<and> HasPrefix s q)"

lemma strip_left_id: "\<not> starts_with_any seqs s \<Longrightarrow> strip_left seqs s = s"
  by (subst strip_left.simps) (auto simp: starts_with_any_def find_Some_iff split: option.splits)

lemma strip_left_clean: "\<not> starts_with_any seqs (strip_left seqs s)"
proof (induction seqs s rule: strip_left.induct)
  case (1 seqs s)
  show ?case
  proof (cases "find (\<lambda>q. q \<noteq> [] \<and> HasPrefix s q) seqs")
    case None
    then have "strip_left seqs s = s" by (simp add: strip_left.simps [of seqs s])
    with None show ?thesis by (auto simp: starts_with_any_def find_None_iff)
  next
    case (Some q)
    with 1 [OF Some] show ?thesis by (subst strip_left.simps) simp
  qed
qed

lemma strip_left_suffix: "\<exists>p. s = p @ strip_left seqs s"
proof (induction seqs s rule: strip_left.induct)
  case (1 seqs s)
  show ?case
  proof (cases "find (\<lambda>q. q \<noteq> [] \<and> HasPrefix s q) seqs")
    case None
    then show ?thesis by (subst strip_left.simps) simp
  next
    case (Some q)
    then obtain p where "drop (length q) s = p @ strip_left seqs (drop (length q) s)"
      using 1 by blast
    with Some show ?thesis
      by (subst strip_left.simps) (metis append.assoc append_take_drop_id option.simps(5))
  qed
qed

lemma starts_with_any_append:
  "starts_with_any seqs p \<Longrightarrow> starts_with_any seqs (p @ s)"
  by (auto simp: starts_with_any_def HasPrefix_iff)

lemma TrimSpace_starts_clean: "\<not> starts_with_any spaces (TrimSpace s)"
proof
  assume "starts_with_any spaces (TrimSpace s)"
  moreover obtain p where "rev (strip_left spaces s) =
      p @ strip_left (map rev spaces) (rev (strip_left spaces s))"
    using strip_left_suffix by blast
  then have "strip_left spaces s = TrimSpace s @ rev p"
    unfolding TrimSpace_def by (metis rev_append rev_rev_ident)
  ultimately have "starts_with_any spaces (strip_left spaces s)"
    by (simp add: starts_with_any_append)
  then show False using strip_left_clean by blast
qed

lemma TrimSpace_ends_clean: "\<not> starts_with_any (map rev spaces) (rev (TrimSpace s))"
  by (simp add: TrimSpace_def strip_left_clean)

lemma TrimSpace_id:
  "\<not> starts_with_any spaces s \<Longrightarrow> \<not> starts_with_any (map rev spaces) (rev s) \<Longrightarrow> TrimSpace s = s"
  by (simp add: TrimSpace_def strip_left_id)

lemma TrimSpace_idem [simp]: "TrimSpace (TrimSpace s) = TrimSpace s"
  by (rule TrimSpace_id [OF TrimSpace_starts_clean TrimSpace_ends_clean])

text \<open>Text over printable ASCII characters is unchanged.\<close>

definition space_byte :: "char \<Rightarrow> bool" where
  "space_byte c = (let n = of_char c :: nat in n \<le> 32 \<or> 127 \<le> n)"

lemma spaces_bytes: "\<forall>q \<in> set spaces. q \<noteq> [] \<and> list_all space_byte q"
  by (simp add: spaces_def ascii_spaces_def unicode_spaces_def space_byte_def upt_rec)

lemma no_space_start: "list_all (\<lambda>c. \<not> space_byte c) s \<Longrightarrow> \<not> starts_with_any spaces s"
  using spaces_bytes by (fastforce simp: starts_with_any_def HasPrefix_iff list_all_iff neq_Nil_conv)

lemma no_space_start_rev:
  "list_all (\<lambda>c. \<not> space_byte c) s \<Longrightarrow> \<not> starts_with_any (map rev spaces) s"
  using spaces_bytes
  by (auto simp: starts_with_any_def HasPrefix_iff list_all_iff)

lemma TrimSpace_printable: "list_all (\<lambda>c. \<not> space_byte c) s \<Longrightarrow> TrimSpace s = s"
  by (rule TrimSpace_id) (simp_all add: no_space_start no_space_start_rev list.pred_set)


lemma TrimSpace_Nil [simp]: "TrimSpace [] = []"
  by (rule TrimSpace_printable) simp

text \<open>
  What follows a prefix whose last byte belongs to no space sequence is trimmed at the end only.
\<close>

lemma strip_left_keeps:
  assumes "\<And>q. q \<in> set seqs \<Longrightarrow> c \<notin> set q"
  shows "\<exists>b'. strip_left seqs (b @ c # a) = b' @ c # a"
proof (induction "length b" arbitrary: b rule: less_induct)
  case less
  show ?case
  proof (cases "find (\<lambda>q. q \<noteq> [] \<and> HasPrefix (b @ c # a) q) seqs")
    case None
    then show ?thesis by (subst strip_left.simps) auto
  next
    case (Some q)
    then have q: "q \<in> set seqs" "q \<noteq> []" "HasPrefix (b @ c # a) q"
      by (auto simp: find_Some_iff)
    then obtain t where t: "b @ c # a = q @ t" by (auto simp: HasPrefix_iff)
    moreover have "c \<notin> set q" using assms q(1) by blast
    ultimately obtain b1 where "b = q @ b1" by (auto simp: append_eq_append_conv2 Cons_eq_append_conv)
    with q(2) less [of b1] Some show ?thesis by (subst strip_left.simps) auto
  qed
qed

lemma TrimSpace_keeps_prefix:
  assumes "\<not> space_byte d" and "\<not> space_byte c"
  shows "\<exists>b'. TrimSpace (d # a @ c # b) = d # a @ c # b'"
proof -
  have seqs: "x \<notin> set q" if "\<not> space_byte x" "q \<in> set spaces" for x q
    using that spaces_bytes by (auto simp: list_all_iff)
  have "\<not> starts_with_any spaces (d # a @ c # b)"
    using spaces_bytes assms(1) by (fastforce simp: starts_with_any_def HasPrefix_iff list_all_iff neq_Nil_conv)
  then have "strip_left spaces (d # a @ c # b) = d # a @ c # b" by (rule strip_left_id)
  moreover have "\<exists>b'. strip_left (map rev spaces) (rev b @ c # (rev a @ [d])) = b' @ c # (rev a @ [d])"
    by (rule strip_left_keeps) (auto dest: seqs [OF assms(2)])
  then obtain b' where "strip_left (map rev spaces) (rev b @ c # (rev a @ [d])) = b' @ c # (rev a @ [d])"
    by blast
  ultimately show ?thesis by (intro exI [of _ "rev b'"]) (simp add: TrimSpace_def)
qed

end
