(* ===== verification/Go_Context.thy ===== *)
theory Go_Context
  imports Go_Std
begin

text \<open>
  Times, durations and contexts. A \<open>time.Time\<close> is the number of nanoseconds since the Unix
  epoch; \<open>UnixNano\<close> is its value as a 64-bit integer, which wraps; the difference of two times
  saturates at the bounds of a 64-bit \<open>time.Duration\<close>. A \<open>context.Context\<close> is its
  deadline and its values; whether it is done is asked of the run-time system, whose clock and
  cancellations belong to the world.
\<close>

type_synonym time = int
type_synonym duration = int
type_synonym int64 = "64 word"

definition Second :: duration where
  "Second = 1000000000"

definition Minute :: duration where
  "Minute = 60 * Second"

definition UnixNano :: "time \<Rightarrow> int64" where
  "UnixNano t = word_of_int t"

definition time_Sub :: "time \<Rightarrow> time \<Rightarrow> duration" where
  "time_Sub t u = max (- (2 ^ 63)) (min (2 ^ 63 - 1) (t - u))"

lemma sint_UnixNano: "- (2 ^ 63) \<le> t \<Longrightarrow> t < 2 ^ 63 \<Longrightarrow> sint (UnixNano t) = t"
  by (simp add: UnixNano_def sint_sbintrunc' signed_take_bit_int_eq_self)

datatype ctx_key = RequestIDKey | ClaimsKey | ChiRequestIDKey
datatype ctx_value = VString string | VClaims "64 word" string

record ctx =
  ctx_deadline :: "time option"
  ctx_values :: "(ctx_key \<times> ctx_value) list"

definition Background :: ctx where
  "Background = \<lparr>ctx_deadline = None, ctx_values = []\<rparr>"

definition WithValue :: "ctx \<Rightarrow> ctx_key \<Rightarrow> ctx_value \<Rightarrow> ctx" where
  "WithValue ctx k v = ctx\<lparr>ctx_values := (k, v) # ctx_values ctx\<rparr>"

definition ctx_Value :: "ctx \<Rightarrow> ctx_key \<Rightarrow> ctx_value option" where
  "ctx_Value ctx k = map_of (ctx_values ctx) k"

text \<open>\<open>context.WithTimeout\<close> keeps the earlier of the two deadlines.\<close>

definition WithTimeout :: "time \<Rightarrow> ctx \<Rightarrow> duration \<Rightarrow> ctx" where
  "WithTimeout now ctx d =
     ctx\<lparr>ctx_deadline := Some (case ctx_deadline ctx of None \<Rightarrow> now + d | Some t \<Rightarrow> min t (now + d))\<rparr>"

text \<open>
  The run-time system: the clock, and \<open>ctx.Err()\<close>, which is asked at a moment and can change
  between two calls (a client disconnects, a deadline passes).
\<close>

record 'w runtime =
  time_Now :: "('w, time) io"
  ctx_Err :: "ctx \<Rightarrow> ('w, go_error option) io"

lemma ctx_Value_WithValue [simp]:
  "ctx_Value (WithValue ctx k v) k' = (if k' = k then Some v else ctx_Value ctx k')"
  by (simp add: ctx_Value_def WithValue_def)

lemma WithValue_deadline [simp]: "ctx_deadline (WithValue ctx k v) = ctx_deadline ctx"
  by (simp add: WithValue_def)

lemma WithTimeout_bound:
  "\<exists>t. ctx_deadline (WithTimeout now ctx d) = Some t \<and> t \<le> now + d \<and>
       (\<forall>t0. ctx_deadline ctx = Some t0 \<longrightarrow> t \<le> t0)"
  by (auto simp: WithTimeout_def split: option.splits)

lemma WithTimeout_Value [simp]: "ctx_Value (WithTimeout now ctx d) k = ctx_Value ctx k"
  by (simp add: ctx_Value_def WithTimeout_def)

end
