(* ===== verification/App_Config.thy ===== *)
theory App_Config
  imports Go_Context
begin

text \<open>
  \<open>internal/config/config.go\<close> and \<open>fetchConfigPath\<close> of \<open>cmd/url-shortener/main.go\<close>: the
  configuration, the struct tags that cleanenv reads it by, and how it is loaded. \<open>os.Stat\<close>
  and \<open>cleanenv.ReadConfig\<close> are parameters.
\<close>

record HTTPServer =
  hs_Address :: string
  hs_Timeout :: duration
  hs_IdleTimeout :: duration

record SSOConfig =
  sso_Addr :: string
  sso_ApplicationID :: "64 word"
  sso_AppSecret :: string
  sso_DialTimeout :: duration

record AppConfig =
  cfg_Env :: string
  cfg_DatabaseURL :: string
  cfg_RedisAddr :: string
  cfg_ServerConfig :: HTTPServer
  cfg_AliasLength :: int
  cfg_MaxRetries :: int
  cfg_TTL :: duration
  cfg_RunMigrations :: bool
  cfg_SSO :: SSOConfig

text \<open>The tags of a field: its path in the yaml file, its variable, its default, whether it is required.\<close>

record field_tag =
  ft_yaml :: "string list option"
  ft_env :: "string option"
  ft_default :: "string option"
  ft_required :: bool

definition field :: "string list \<Rightarrow> string option \<Rightarrow> string option \<Rightarrow> bool \<Rightarrow> field_tag" where
  "field path var dflt req = \<lparr>ft_yaml = Some path, ft_env = var, ft_default = dflt, ft_required = req\<rparr>"

definition HTTPServer_tags :: "field_tag list" where
  "HTTPServer_tags =
     [field [''http_server'', ''address''] None (Some ''localhost:8080'') False,
      field [''http_server'', ''timeout''] None (Some ''4s'') False,
      field [''http_server'', ''idle_timeout''] None (Some ''60s'') False]"

definition SSOConfig_tags :: "field_tag list" where
  "SSOConfig_tags =
     [field [''sso'', ''addr''] (Some ''SSO_ADDR'') None False,
      field [''sso'', ''application_id''] (Some ''SSO_APPLICATION_ID'') None False,
      \<lparr>ft_yaml = None, ft_env = Some ''SSO_APP_SECRET'', ft_default = None, ft_required = False\<rparr>,
      field [''sso'', ''dial_timeout''] (Some ''SSO_DIAL_TIMEOUT'') None False]"

definition Config_tags :: "field_tag list" where
  "Config_tags =
     [field [''env''] None None True,
      field [''database_url''] (Some ''DATABASE_URL'') None True,
      field [''redis_url''] (Some ''REDIS_URL'') None True] @
     HTTPServer_tags @
     [field [''alias_length''] None (Some ''6'') False,
      field [''max_retries''] None (Some ''5'') False,
      field [''ttl''] None (Some ''3600s'') False,
      field [''run_migrations''] (Some ''RUN_MIGRATIONS'') (Some ''false'') False] @
     SSOConfig_tags"

record 'w config_lib =
  os_Stat :: "string \<Rightarrow> ('w, go_error option) io"
  cleanenv_ReadConfig :: "field_tag list \<Rightarrow> string \<Rightarrow> ('w, go_error + AppConfig) io"

definition MustLoad :: "(go_error \<Rightarrow> string) \<Rightarrow> 'w config_lib \<Rightarrow> string \<Rightarrow> ('w, AppConfig outcome) io" where
  "MustLoad foreign lib configPath w =
     (if configPath = [] then (Panic ''config path is empty'', w)
      else (case os_Stat lib configPath w of (err, w1) \<Rightarrow>
              if (case err of None \<Rightarrow> False | Some e \<Rightarrow> errors_Is e OsErrNotExist)
              then (Panic (''config file does not exist: '' @ configPath), w1)
              else (case cleanenv_ReadConfig lib Config_tags configPath w1 of
                      (Inl e, w2) \<Rightarrow> (Panic (''failed to read config: '' @ err_Error foreign e), w2)
                    | (Inr cfg, w2) \<Rightarrow> (Ok cfg, w2))))"

text \<open>
  The command line is parsed once: \<open>parsed\<close> is \<open>flag.Parsed()\<close>, \<open>config_flag\<close> what
  \<open>flag.Parse\<close> stores for \<open>-config\<close>, \<open>None\<close> when it rejects the arguments and exits.
\<close>

definition fetchConfigPath :: "bool \<Rightarrow> string option \<Rightarrow> (string \<Rightarrow> string) \<Rightarrow> string option" where
  "fetchConfigPath parsed config_flag getenv =
     (case (if \<not> parsed then config_flag else Some []) of
        None \<Rightarrow> None
      | Some res \<Rightarrow> Some (if res = [] then getenv ''CONFIG_PATH'' else res))"

end
