(* ===== verification/Storage_Spec.thy ===== *)
theory Storage_Spec
  imports Go_Context
begin

text \<open>
  The interface \<open>Storage\<close> of \<open>internal/storage/redis/cache.go\<close>, which is also the
  interface \<open>URLRepository\<close> of \<open>internal/service/url/service.go\<close>: the operations as a
  record, and what an implementation promises about the links it stores as two locales.
  \<open>link_store\<close> is about writes and about the errors, \<open>link_reader\<close> adds that reads
  return what is stored, under an invariant of the implementation.
\<close>

record 'w Storage =
  st_Save :: "ctx \<Rightarrow> string \<Rightarrow> string \<Rightarrow> ('w, go_error option) io"
  st_Get :: "ctx \<Rightarrow> string \<Rightarrow> ('w, go_error + string) io"
  st_Delete :: "ctx \<Rightarrow> string \<Rightarrow> ('w, go_error option) io"

type_synonym links = "string \<rightharpoonup> string"

text \<open>
  A statement whose reply is lost may or may not have been executed, so an error other than
  the two sentinels says nothing about which of the two happened.
\<close>

locale link_store =
  fixes st :: "'w Storage" and rows :: "'w \<Rightarrow> links"
  assumes save_ok: "st_Save st c u a w = (None, w') \<Longrightarrow> rows w a = None \<and> rows w' = (rows w)(a \<mapsto> u)"
    and save_exists: "st_Save st c u a w = (Some e, w') \<Longrightarrow> errors_Is e ErrURLExist \<Longrightarrow>
          rows w a \<noteq> None \<and> rows w' = rows w"
    and save_error: "st_Save st c u a w = (Some e, w') \<Longrightarrow>
          rows w' = rows w \<or> rows w a = None \<and> rows w' = (rows w)(a \<mapsto> u)"
    and get_frame: "st_Get st c a w = (r, w') \<Longrightarrow> rows w' = rows w"
    and get_missing: "st_Get st c a w = (Inl e, w') \<Longrightarrow> errors_Is e ErrURLNotFound \<Longrightarrow> rows w a = None"
    and delete_ok: "st_Delete st c a w = (None, w') \<Longrightarrow> rows w a \<noteq> None \<and> rows w' = (rows w)(a := None)"
    and delete_missing: "st_Delete st c a w = (Some e, w') \<Longrightarrow> errors_Is e ErrURLNotFound \<Longrightarrow>
          rows w a = None \<and> rows w' = rows w"
    and delete_error: "st_Delete st c a w = (Some e, w') \<Longrightarrow>
          rows w' = rows w \<or> rows w' = (rows w)(a := None)"
    and save_url: "st_Save st c u a w = (Some e, w') \<Longrightarrow> \<not> errors_Is e ErrInvalidURL"
begin

text \<open>A save never replaces a link: whatever it returns, the links stored before are kept.\<close>

lemma save_extends: "st_Save st c u a w = (r, w') \<Longrightarrow> rows w \<subseteq>\<^sub>m rows w'"
proof (cases r)
  case None
  assume "st_Save st c u a w = (r, w')"
  with None save_ok [of c u a w w'] show ?thesis by (auto simp: map_le_def)
next
  case (Some e)
  assume "st_Save st c u a w = (r, w')"
  with Some save_error [of c u a w e w'] show ?thesis by (auto simp: map_le_def)
qed

lemma save_elsewhere: "st_Save st c u a w = (r, w') \<Longrightarrow> b \<noteq> a \<Longrightarrow> rows w' b = rows w b"
  by (cases r) (use save_ok [of c u a w w'] save_error [of c u a w _ w'] in auto)

lemma delete_elsewhere: "st_Delete st c a w = (r, w') \<Longrightarrow> b \<noteq> a \<Longrightarrow> rows w' b = rows w b"
  by (cases r) (use delete_ok [of c a w w'] delete_error [of c a w _ w'] in auto)

text \<open>The same alias is never saved twice without a delete in between.\<close>

lemma save_save:
  assumes "st_Save st c u a w = (None, w1)" and "rows w1 \<subseteq>\<^sub>m rows w2"
  shows "st_Save st c' u' a w2 \<noteq> (None, w3)"
proof
  assume "st_Save st c' u' a w2 = (None, w3)"
  then have "rows w2 a = None" by (simp add: save_ok)
  moreover from save_ok [OF assms(1)] have "rows w1 a = Some u" by simp
  ultimately show False using map_leD [OF assms(2)] by force
qed

end

locale link_reader = link_store +
  fixes inv :: "'a \<Rightarrow> bool"
  assumes get_ok: "inv w \<Longrightarrow> st_Get st c a w = (Inr u, w') \<Longrightarrow> rows w a = Some u"
    and inv_get: "inv w \<Longrightarrow> st_Get st c a w = (r, w') \<Longrightarrow> inv w'"
    and inv_save: "inv w \<Longrightarrow> st_Save st c u a w = (s, w') \<Longrightarrow> inv w'"
begin

text \<open>A link that was saved is what a later read returns, if the read succeeds.\<close>

lemma save_get:
  assumes "inv w" and "st_Save st c u a w = (None, w1)" and "st_Get st c' a w1 = (r, w2)"
  shows "r = Inr u \<or> (\<exists>e. r = Inl e \<and> \<not> errors_Is e ErrURLNotFound)"
proof -
  have "inv w1" and row: "rows w1 a = Some u"
    using inv_save [OF assms(1,2)] save_ok [OF assms(2)] by auto
  with assms(3) show ?thesis
    by (cases r) (auto dest: get_ok get_missing)
qed

end


text \<open>
  A store that keeps what is saved apart from everything else: if only values with the property
  \<open>P\<close> are saved, only such values come back. This holds of a cache even when it is stale.
\<close>

locale guarded_store =
  fixes st :: "'w Storage" and safe :: "'w \<Rightarrow> bool" and P :: "string \<Rightarrow> bool"
  assumes guard_save: "safe w \<Longrightarrow> P u \<Longrightarrow> st_Save st c u a w = (r, w') \<Longrightarrow> safe w'"
    and guard_get: "safe w \<Longrightarrow> st_Get st c a w = (g, w') \<Longrightarrow> safe w' \<and> (\<forall>u. g = Inr u \<longrightarrow> P u)"
    and guard_delete: "safe w \<Longrightarrow> st_Delete st c a w = (r, w') \<Longrightarrow> safe w'"

end
