(* ===== verification/Postgres.thy ===== *)
theory Postgres
  imports Storage_Spec
begin

text \<open>
  \<open>internal/storage/postgres/repository.go\<close>: the repository over a pgx connection pool. The
  pool is a parameter; \<open>pg_server\<close> states what the repository relies on of PostgreSQL for its
  three queries on the table of \<open>migrations/000001_init.up.sql\<close>.
\<close>

section \<open>The repository\<close>

definition sql_line :: "string \<Rightarrow> string" where
  "sql_line s = CHR 0x0A # ''        '' @ s"

definition insertURLQuery :: string where
  "insertURLQuery = sql_line ''INSERT INTO urlshortener.url (url, alias)'' @
     sql_line ''VALUES ($1, $2);'' @ CHR 0x0A # ''    ''"

definition selectURLQuery :: string where
  "selectURLQuery = sql_line ''SELECT url'' @ sql_line ''FROM urlshortener.url'' @
     sql_line ''WHERE alias = $1;'' @ CHR 0x0A # ''    ''"

definition deleteURLQuery :: string where
  "deleteURLQuery = sql_line ''DELETE FROM urlshortener.url'' @
     sql_line ''WHERE alias = $1;'' @ CHR 0x0A # ''    ''"

definition pgUniqueViolation :: string where
  "pgUniqueViolation = ''23505''"

definition urlAliasConstraint :: string where
  "urlAliasConstraint = ''url_alias_key''"

definition defaultQueryTimeout :: duration where
  "defaultQueryTimeout = 5 * Second"

text \<open>
  The pool: \<open>Exec\<close> returns the number of rows affected, \<open>QueryRow\<close> with \<open>Scan\<close> into
  one string the value of the column.
\<close>

record 'w Pool =
  pool_Exec :: "ctx \<Rightarrow> string \<Rightarrow> string list \<Rightarrow> ('w, go_error + int) io"
  pool_QueryRow :: "ctx \<Rightarrow> string \<Rightarrow> string list \<Rightarrow> ('w, go_error + string) io"
  pool_Ping :: "ctx \<Rightarrow> ('w, go_error option) io"

definition PostgresRepo_Save ::
  "'w runtime \<Rightarrow> 'w Pool \<Rightarrow> ctx \<Rightarrow> string \<Rightarrow> string \<Rightarrow> ('w, go_error option) io" where
  "PostgresRepo_Save rt pool ctx rawURL alias w =
     (let op = ''storage.postgres.Save'' in
      case time_Now rt w of (now, w1) \<Rightarrow>
      case pool_Exec pool (WithTimeout now ctx defaultQueryTimeout) insertURLQuery [rawURL, alias] w1 of
        (Inl err, w2) \<Rightarrow>
          (case errors_As_PgError err of
             Some (code, constraint) \<Rightarrow>
               (if code = pgUniqueViolation \<and> constraint = urlAliasConstraint
                then (Some (op_wrap op (Sentinel ErrURLExist)), w2)
                else (Some (op_wrap op err), w2))
           | None \<Rightarrow> (Some (op_wrap op err), w2))
      | (Inr n, w2) \<Rightarrow>
          (if n \<noteq> 1 then (Some (Dynamic (op @ '': unexpected rows affected: '' @ show_int n)), w2)
           else (None, w2)))"

definition PostgresRepo_Get ::
  "'w runtime \<Rightarrow> 'w Pool \<Rightarrow> ctx \<Rightarrow> string \<Rightarrow> ('w, go_error + string) io" where
  "PostgresRepo_Get rt pool ctx alias w =
     (let op = ''storage.postgres.Get'' in
      case time_Now rt w of (now, w1) \<Rightarrow>
      case pool_QueryRow pool (WithTimeout now ctx defaultQueryTimeout) selectURLQuery [alias] w1 of
        (Inl err, w2) \<Rightarrow>
          (if errors_Is err PgxErrNoRows then (Inl (op_wrap op (Sentinel ErrURLNotFound)), w2)
           else (Inl (op_wrap op err), w2))
      | (Inr urlToGet, w2) \<Rightarrow> (Inr urlToGet, w2))"

definition PostgresRepo_Delete ::
  "'w runtime \<Rightarrow> 'w Pool \<Rightarrow> ctx \<Rightarrow> string \<Rightarrow> ('w, go_error option) io" where
  "PostgresRepo_Delete rt pool ctx alias w =
     (let op = ''storage.postgres.Delete'' in
      case time_Now rt w of (now, w1) \<Rightarrow>
      case pool_Exec pool (WithTimeout now ctx defaultQueryTimeout) deleteURLQuery [alias] w1 of
        (Inl err, w2) \<Rightarrow> (Some (op_wrap op err), w2)
      | (Inr n, w2) \<Rightarrow>
          (if n \<noteq> 1 then (Some (op_wrap op (Sentinel ErrURLNotFound)), w2) else (None, w2)))"

definition PostgresRepo_Ping :: "'w Pool \<Rightarrow> ctx \<Rightarrow> ('w, go_error option) io" where
  "PostgresRepo_Ping pool ctx w = pool_Ping pool ctx w"

text \<open>The repository as the \<open>Storage\<close> that \<open>wire.Bind\<close> hands to the cache.\<close>

definition postgres_storage :: "'w runtime \<Rightarrow> 'w Pool \<Rightarrow> 'w Storage" where
  "postgres_storage rt pool =
     \<lparr>st_Save = PostgresRepo_Save rt pool, st_Get = PostgresRepo_Get rt pool,
      st_Delete = PostgresRepo_Delete rt pool\<rparr>"

lemma postgres_storage_simps [simp]:
  "st_Save (postgres_storage rt pool) = PostgresRepo_Save rt pool"
  "st_Get (postgres_storage rt pool) = PostgresRepo_Get rt pool"
  "st_Delete (postgres_storage rt pool) = PostgresRepo_Delete rt pool"
  by (simp_all add: postgres_storage_def)

section \<open>What the repository relies on\<close>

definition unique_violation :: "go_error \<Rightarrow> bool" where
  "unique_violation e \<longleftrightarrow> errors_As_PgError e = Some (pgUniqueViolation, urlAliasConstraint)"

text \<open>
  The documented behaviour of the three statements on the table \<open>urlshortener.url\<close>, with
  \<open>rows\<close> the url of every stored alias: an insert is refused with SQLSTATE 23505 of the
  constraint \<open>url_alias_key\<close> only for an alias that is there, and otherwise adds one row; a
  select returns the row's url or \<open>pgx.ErrNoRows\<close>; a delete removes the row and counts it. A
  statement that fails otherwise was executed or not, and the driver's errors are not the
  repository's own.
\<close>

locale pg_server =
  fixes rt :: "'w runtime" and pool :: "'w Pool" and rows :: "'w \<Rightarrow> links"
  assumes now_rows: "time_Now rt w = (t, w') \<Longrightarrow> rows w' = rows w"
    and insert_ok: "pool_Exec pool c insertURLQuery [u, a] w = (Inr n, w') \<Longrightarrow>
          n = 1 \<and> rows w a = None \<and> rows w' = (rows w)(a \<mapsto> u)"
    and insert_unique: "pool_Exec pool c insertURLQuery [u, a] w = (Inl e, w') \<Longrightarrow> unique_violation e \<Longrightarrow>
          rows w a \<noteq> None \<and> rows w' = rows w"
    and insert_error: "pool_Exec pool c insertURLQuery [u, a] w = (Inl e, w') \<Longrightarrow>
          rows w' = rows w \<or> rows w a = None \<and> rows w' = (rows w)(a \<mapsto> u)"
    and select_ok: "pool_QueryRow pool c selectURLQuery [a] w = (Inr u, w') \<Longrightarrow>
          rows w a = Some u \<and> rows w' = rows w"
    and select_error: "pool_QueryRow pool c selectURLQuery [a] w = (Inl e, w') \<Longrightarrow>
          rows w' = rows w \<and> (errors_Is e PgxErrNoRows \<longrightarrow> rows w a = None)"
    and delete_rows: "pool_Exec pool c deleteURLQuery [a] w = (Inr n, w') \<Longrightarrow>
          n = (if rows w a = None then 0 else 1) \<and> rows w' = (rows w)(a := None)"
    and delete_failed: "pool_Exec pool c deleteURLQuery [a] w = (Inl e, w') \<Longrightarrow>
          rows w' = rows w \<or> rows w' = (rows w)(a := None)"
    and exec_foreign: "pool_Exec pool c q args w = (Inl e, w') \<Longrightarrow>
          \<not> errors_Is e ErrURLExist \<and> \<not> errors_Is e ErrURLNotFound \<and> \<not> errors_Is e ErrInvalidURL"
    and query_foreign: "pool_QueryRow pool c q args w = (Inl e, w') \<Longrightarrow> \<not> errors_Is e ErrURLNotFound"
begin

text \<open>Case rules of the three operations.\<close>

lemma Save_cases:
  assumes "PostgresRepo_Save rt pool c u a w = (r, w')"
  obtains (ok) "r = None" "rows w a = None" "rows w' = (rows w)(a \<mapsto> u)"
  | (exists) e where "r = Some e" "errors_Is e ErrURLExist" "\<not> errors_Is e ErrInvalidURL" "rows w a \<noteq> None" "rows w' = rows w"
  | (failed) e where "r = Some e" "\<not> errors_Is e ErrURLExist" "\<not> errors_Is e ErrInvalidURL"
      "rows w' = rows w \<or> rows w a = None \<and> rows w' = (rows w)(a \<mapsto> u)"
proof -
  obtain t w1 where now: "time_Now rt w = (t, w1)" by fastforce
  obtain x where ex: "pool_Exec pool (WithTimeout t c defaultQueryTimeout) insertURLQuery [u, a] w1 = (x, w')"
    using assms now by (auto simp: PostgresRepo_Save_def Let_def split: go_splits)
  have rows1: "rows w1 = rows w" using now by (rule now_rows)
  show thesis
  proof (cases x)
    case (Inr n)
    with insert_ok [OF ex [unfolded Inr]] ex assms now rows1 show thesis
      by (auto simp: PostgresRepo_Save_def Let_def intro: ok)
  next
    case (Inl e)
    show thesis
    proof (cases "unique_violation e")
      case True
      with Inl insert_unique [OF ex [unfolded Inl]] ex assms now rows1 show thesis
        by (auto simp: PostgresRepo_Save_def Let_def unique_violation_def intro: exists)
    next
      case False
      then have "r = Some (op_wrap ''storage.postgres.Save'' e)"
        using Inl ex assms now
        by (auto simp: PostgresRepo_Save_def Let_def unique_violation_def split: option.splits if_splits)
      with insert_error [OF ex [unfolded Inl]] exec_foreign [OF ex [unfolded Inl]] rows1
      show thesis by (auto intro: failed)
    qed
  qed
qed

lemma Get_cases:
  assumes "PostgresRepo_Get rt pool c a w = (r, w')"
  obtains (ok) u where "r = Inr u" "rows w a = Some u" "rows w' = rows w"
  | (missing) e where "r = Inl e" "errors_Is e ErrURLNotFound" "rows w a = None" "rows w' = rows w"
  | (failed) e where "r = Inl e" "\<not> errors_Is e ErrURLNotFound" "rows w' = rows w"
proof -
  obtain t w1 where now: "time_Now rt w = (t, w1)" by fastforce
  obtain x where ex: "pool_QueryRow pool (WithTimeout t c defaultQueryTimeout) selectURLQuery [a] w1 = (x, w')"
    using assms now by (auto simp: PostgresRepo_Get_def Let_def split: go_splits)
  have rows1: "rows w1 = rows w" using now by (rule now_rows)
  show thesis
  proof (cases x)
    case (Inr u)
    with select_ok [OF ex [unfolded Inr]] ex assms now rows1 show thesis
      by (auto simp: PostgresRepo_Get_def Let_def intro: ok)
  next
    case (Inl e)
    with select_error [OF ex [unfolded Inl]] query_foreign [OF ex [unfolded Inl]] ex assms now rows1 show thesis
      by (auto simp: PostgresRepo_Get_def Let_def split: if_splits intro: missing failed)
  qed
qed

lemma Delete_cases:
  assumes "PostgresRepo_Delete rt pool c a w = (r, w')"
  obtains (ok) "r = None" "rows w a \<noteq> None" "rows w' = (rows w)(a := None)"
  | (missing) e where "r = Some e" "errors_Is e ErrURLNotFound" "rows w a = None" "rows w' = rows w"
  | (failed) e where "r = Some e" "\<not> errors_Is e ErrURLNotFound"
      "rows w' = rows w \<or> rows w' = (rows w)(a := None)"
proof -
  obtain t w1 where now: "time_Now rt w = (t, w1)" by fastforce
  obtain x where ex: "pool_Exec pool (WithTimeout t c defaultQueryTimeout) deleteURLQuery [a] w1 = (x, w')"
    using assms now by (auto simp: PostgresRepo_Delete_def Let_def split: go_splits)
  have rows1: "rows w1 = rows w" using now by (rule now_rows)
  show thesis
  proof (cases x)
    case (Inr n)
    with delete_rows [OF ex [unfolded Inr]] ex assms now rows1 show thesis
      by (cases "rows w a") (auto simp: PostgresRepo_Delete_def Let_def fun_upd_idem intro: ok missing)
  next
    case (Inl e)
    with delete_failed [OF ex [unfolded Inl]] exec_foreign [OF ex [unfolded Inl]] ex assms now rows1 show thesis
      by (auto simp: PostgresRepo_Delete_def Let_def intro: failed)
  qed
qed

end

text \<open>The repository implements the interface \<open>Storage\<close>, with no invariant to keep.\<close>

sublocale pg_server \<subseteq> pg: link_reader "postgres_storage rt pool" rows "\<lambda>_. True"
  by unfold_locales (auto elim!: Save_cases Get_cases Delete_cases)

end
