(* ===== verification/Redis_Cache.thy ===== *)
theory Redis_Cache
  imports Storage_Spec
begin

text \<open>
  \<open>internal/storage/redis/cache.go\<close>: the Redis cache in front of a \<open>Storage\<close>, with its
  circuit breaker. The only state of the Go struct that changes is the atomic \<open>downUntil\<close>, a
  64-bit nanosecond timestamp; the operations therefore act on pairs of it and the world. The
  Redis client and \<open>singleflight.Group.Do\<close> are parameters.
\<close>

section \<open>The cache\<close>

definition redisCooldown :: duration where
  "redisCooldown = 5 * Second"

record 'w Redis =
  rdb_Get :: "ctx \<Rightarrow> string \<Rightarrow> ('w, go_error + string) io"
  rdb_Set :: "ctx \<Rightarrow> string \<Rightarrow> string \<Rightarrow> duration \<Rightarrow> ('w, go_error option) io"
  rdb_Del :: "ctx \<Rightarrow> string \<Rightarrow> ('w, go_error option) io"
  rdb_Ping :: "ctx \<Rightarrow> ('w, go_error option) io"

type_synonym 'w cached = "int64 \<times> 'w"

record 'w Cache =
  cache_next :: "'w Storage"
  cache_rdb :: "'w Redis"
  cache_ttl :: duration
  group_Do :: "string \<Rightarrow> ('w cached, go_error + string) io \<Rightarrow> ('w cached, go_error + string) io"

definition Cache_New ::
  "(string \<Rightarrow> ('w cached, go_error + string) io \<Rightarrow> ('w cached, go_error + string) io) \<Rightarrow>
   'w Storage \<Rightarrow> 'w Redis \<Rightarrow> duration \<Rightarrow> 'w Cache" where
  "Cache_New grp nxt rdb ttl =
     \<lparr>cache_next = nxt, cache_rdb = rdb, cache_ttl = ttl, group_Do = grp\<rparr>"

definition redisAvailable :: "'w runtime \<Rightarrow> ('w cached, bool) io" where
  "redisAvailable rt s =
     (case time_Now rt (snd s) of (now, w') \<Rightarrow> (sint (fst s) \<le> sint (UnixNano now), (fst s, w')))"

definition markRedisDown :: "'w runtime \<Rightarrow> 'w cached \<Rightarrow> 'w cached" where
  "markRedisDown rt s = (case time_Now rt (snd s) of (now, w') \<Rightarrow> (UnixNano (now + redisCooldown), w'))"

definition Cache_Save ::
  "'w runtime \<Rightarrow> 'w Cache \<Rightarrow> ctx \<Rightarrow> string \<Rightarrow> string \<Rightarrow> ('w cached, go_error option) io" where
  "Cache_Save rt c ctx url alias s =
     (case st_Save (cache_next c) ctx url alias (snd s) of
        (Some err, w1) \<Rightarrow> (Some err, (fst s, w1))
      | (None, w1) \<Rightarrow>
          (case redisAvailable rt (fst s, w1) of (available, s2) \<Rightarrow>
             if \<not> available then (None, s2)
             else (case rdb_Set (cache_rdb c) ctx alias url (cache_ttl c) (snd s2) of (err, w3) \<Rightarrow>
                     (None, if err \<noteq> None then markRedisDown rt (fst s2, w3) else (fst s2, w3)))))"

text \<open>The lookup in Redis that \<open>Get\<close> starts with; \<open>None\<close> sends it to the database.\<close>

definition cached_lookup ::
  "'w runtime \<Rightarrow> 'w Cache \<Rightarrow> ctx \<Rightarrow> string \<Rightarrow> ('w cached, string option) io" where
  "cached_lookup rt c ctx alias s =
     (case redisAvailable rt s of (available, s1) \<Rightarrow>
        if available then
          (case rdb_Get (cache_rdb c) ctx alias (snd s1) of
             (Inr val, w2) \<Rightarrow> (Some val, (fst s1, w2))
           | (Inl err, w2) \<Rightarrow>
               (None, if \<not> errors_Is err RedisNil then markRedisDown rt (fst s1, w2) else (fst s1, w2)))
        else (None, s1))"

text \<open>The function \<open>Get\<close> passes to the singleflight group.\<close>

definition load_and_fill ::
  "'w runtime \<Rightarrow> 'w Cache \<Rightarrow> ctx \<Rightarrow> string \<Rightarrow> ('w cached, go_error + string) io" where
  "load_and_fill rt c ctx alias s =
     (case st_Get (cache_next c) ctx alias (snd s) of
        (Inl err, w1) \<Rightarrow> (Inl err, (fst s, w1))
      | (Inr url, w1) \<Rightarrow>
          (case redisAvailable rt (fst s, w1) of (available, s2) \<Rightarrow>
             if available then
               (case rdb_Set (cache_rdb c) ctx alias url (cache_ttl c) (snd s2) of (err, w3) \<Rightarrow>
                  (Inr url, if err \<noteq> None then markRedisDown rt (fst s2, w3) else (fst s2, w3)))
             else (Inr url, s2)))"

definition Cache_Get ::
  "'w runtime \<Rightarrow> 'w Cache \<Rightarrow> ctx \<Rightarrow> string \<Rightarrow> ('w cached, go_error + string) io" where
  "Cache_Get rt c ctx alias s =
     (case cached_lookup rt c ctx alias s of
        (Some val, s') \<Rightarrow> (Inr val, s')
      | (None, s') \<Rightarrow> group_Do c alias (load_and_fill rt c ctx alias) s')"

definition Cache_Delete ::
  "'w runtime \<Rightarrow> 'w Cache \<Rightarrow> ctx \<Rightarrow> string \<Rightarrow> ('w cached, go_error option) io" where
  "Cache_Delete rt c ctx alias s =
     (case st_Delete (cache_next c) ctx alias (snd s) of
        (Some err, w1) \<Rightarrow> (Some err, (fst s, w1))
      | (None, w1) \<Rightarrow>
          (case redisAvailable rt (fst s, w1) of (available, s2) \<Rightarrow>
             if \<not> available then (None, s2)
             else (case rdb_Del (cache_rdb c) ctx alias (snd s2) of (err, w3) \<Rightarrow>
                     (None, if err \<noteq> None then markRedisDown rt (fst s2, w3) else (fst s2, w3)))))"

text \<open>The cache as the \<open>URLRepository\<close> that \<open>wire.Bind\<close> hands to the service.\<close>

definition cache_storage :: "'w runtime \<Rightarrow> 'w Cache \<Rightarrow> 'w cached Storage" where
  "cache_storage rt c = \<lparr>st_Save = Cache_Save rt c, st_Get = Cache_Get rt c, st_Delete = Cache_Delete rt c\<rparr>"

lemma cache_storage_simps [simp]:
  "st_Save (cache_storage rt c) = Cache_Save rt c"
  "st_Get (cache_storage rt c) = Cache_Get rt c"
  "st_Delete (cache_storage rt c) = Cache_Delete rt c"
  by (simp_all add: cache_storage_def)

lemma Cache_New_simps [simp]:
  "cache_next (Cache_New grp nxt rdb ttl) = nxt"
  "cache_rdb (Cache_New grp nxt rdb ttl) = rdb"
  "cache_ttl (Cache_New grp nxt rdb ttl) = ttl"
  "group_Do (Cache_New grp nxt rdb ttl) = grp"
  by (simp_all add: Cache_New_def)

section \<open>What the cache relies on of Redis\<close>

text \<open>
  \<open>kv\<close> is the live part of the key space: a hit returns a live value, \<open>redis.Nil\<close> means
  there is none, a set adds at most its own pair (whether or not its reply arrives), a
  successful delete removes the key. Entries may expire at any moment, so every call may also
  lose entries.
\<close>

locale redis_server =
  fixes rt :: "'w runtime" and rdb :: "'w Redis" and kv :: "'w \<Rightarrow> links"
  assumes now_kv: "time_Now rt w = (t, w') \<Longrightarrow> kv w' \<subseteq>\<^sub>m kv w"
    and get_hit: "rdb_Get rdb c k w = (Inr v, w') \<Longrightarrow> kv w k = Some v"
    and get_kv: "rdb_Get rdb c k w = (r, w') \<Longrightarrow> kv w' \<subseteq>\<^sub>m kv w"
    and set_kv: "rdb_Set rdb c k v ttl w = (e, w') \<Longrightarrow>
          kv w' \<subseteq>\<^sub>m kv w \<or> kv w' \<subseteq>\<^sub>m (kv w)(k \<mapsto> v)"
    and del_kv: "rdb_Del rdb c k w = (e, w') \<Longrightarrow> kv w' \<subseteq>\<^sub>m kv w"
    and del_ok: "rdb_Del rdb c k w = (None, w') \<Longrightarrow> kv w' \<subseteq>\<^sub>m (kv w)(k := None)"

text \<open>
  The cache in its place: a link reader below it, a Redis beside it, neither of which touches
  the other's data, and a singleflight group with no call in flight for the key, which runs the
  function it is given.
\<close>

locale cached_store =
  nxt: link_reader "cache_next c" rows "\<lambda>_. True" + redis: redis_server rt "cache_rdb c" kv
  for c :: "'w Cache" and rows :: "'w \<Rightarrow> links" and rt :: "'w runtime" and kv :: "'w \<Rightarrow> links" +
  assumes now_rows: "time_Now rt w = (t, w') \<Longrightarrow> rows w' = rows w"
    and get_rows: "rdb_Get (cache_rdb c) x k w = (r, w') \<Longrightarrow> rows w' = rows w"
    and set_rows: "rdb_Set (cache_rdb c) x k v ttl w = (e, w') \<Longrightarrow> rows w' = rows w"
    and del_rows: "rdb_Del (cache_rdb c) x k w = (e, w') \<Longrightarrow> rows w' = rows w"
    and save_kv: "st_Save (cache_next c) x u a w = (e, w') \<Longrightarrow> kv w' \<subseteq>\<^sub>m kv w"
    and load_kv: "st_Get (cache_next c) x a w = (r, w') \<Longrightarrow> kv w' \<subseteq>\<^sub>m kv w"
    and delete_kv: "st_Delete (cache_next c) x a w = (e, w') \<Longrightarrow> kv w' \<subseteq>\<^sub>m kv w"
    and Do_runs: "group_Do c k f = f"

text \<open>Every live cache entry agrees with the database.\<close>

definition coherent :: "('w \<Rightarrow> links) \<Rightarrow> ('w \<Rightarrow> links) \<Rightarrow> 'w cached \<Rightarrow> bool" where
  "coherent rows kv s \<longleftrightarrow> kv (snd s) \<subseteq>\<^sub>m rows (snd s)"


section \<open>The operations step by step\<close>

context cached_store
begin

lemma available_frame:
  "redisAvailable rt s = (b, s') \<Longrightarrow>
   fst s' = fst s \<and> rows (snd s') = rows (snd s) \<and> kv (snd s') \<subseteq>\<^sub>m kv (snd s)"
  by (auto simp: redisAvailable_def split: prod.splits dest: now_rows redis.now_kv)

lemma down_frame:
  "rows (snd (markRedisDown rt s)) = rows (snd s) \<and> kv (snd (markRedisDown rt s)) \<subseteq>\<^sub>m kv (snd s)"
  by (auto simp: markRedisDown_def split: prod.splits dest: now_rows redis.now_kv)

lemma set_frame:
  assumes "rdb_Set (cache_rdb c) x k v ttl w = (e, w')"
    and "s' = (if e \<noteq> None then markRedisDown rt (d, w') else (d, w'))"
  shows "rows (snd s') = rows w \<and> (kv (snd s') \<subseteq>\<^sub>m kv w \<or> kv (snd s') \<subseteq>\<^sub>m (kv w)(k \<mapsto> v))"
  using assms set_rows [OF assms(1)] redis.set_kv [OF assms(1)] down_frame [of "(d, w')"]
  by (auto intro: map_le_trans)

lemma del_frame:
  assumes "rdb_Del (cache_rdb c) x k w = (e, w')"
    and "s' = (if e \<noteq> None then markRedisDown rt (d, w') else (d, w'))"
  shows "rows (snd s') = rows w \<and> kv (snd s') \<subseteq>\<^sub>m kv w \<and> (e = None \<longrightarrow> kv (snd s') \<subseteq>\<^sub>m (kv w)(k := None))"
  using assms del_rows [OF assms(1)] redis.del_kv [OF assms(1)] redis.del_ok [of x k w w']
    down_frame [of "(d, w')"]
  by (auto intro: map_le_trans)

lemma Save_spec:
  assumes "Cache_Save rt c x u a s = (r, s')"
  shows "\<exists>w1. st_Save (cache_next c) x u a (snd s) = (r, w1) \<and> rows (snd s') = rows w1 \<and>
    (kv (snd s') \<subseteq>\<^sub>m kv (snd s) \<or> r = None \<and> kv (snd s') \<subseteq>\<^sub>m (kv (snd s))(a \<mapsto> u))"
proof -
  obtain e w1 where nx: "st_Save (cache_next c) x u a (snd s) = (e, w1)" by fastforce
  note k1 = save_kv [OF nx]
  show ?thesis
  proof (cases e)
    case (Some err)
    with assms nx k1 show ?thesis by (auto simp: Cache_Save_def)
  next
    case None
    obtain b s2 where av: "redisAvailable rt (fst s, w1) = (b, s2)" by (metis surj_pair)
    note f2 = available_frame [OF av]
    show ?thesis
    proof (cases b)
      case False
      with assms nx None av f2 k1 show ?thesis
        by (auto simp: Cache_Save_def intro: map_le_trans)
    next
      case True
      obtain err w3 where set: "rdb_Set (cache_rdb c) x a u (cache_ttl c) (snd s2) = (err, w3)"
        by fastforce
      from assms nx None av True set have r: "r = None"
        and s': "s' = (if err \<noteq> None then markRedisDown rt (fst s2, w3) else (fst s2, w3))"
        by (auto simp: Cache_Save_def)
      have k2: "kv (snd s2) \<subseteq>\<^sub>m kv (snd s)" using f2 k1 by (auto intro: map_le_trans)
      then have "(kv (snd s2))(a \<mapsto> u) \<subseteq>\<^sub>m (kv (snd s))(a \<mapsto> u)" by (rule map_le_upd)
      with k2 set_frame [OF set s'] f2 nx None r show ?thesis by (auto intro: map_le_trans)
    qed
  qed
qed

lemma lookup_spec:
  assumes "cached_lookup rt c x a s = (r, s')"
  shows "rows (snd s') = rows (snd s) \<and> kv (snd s') \<subseteq>\<^sub>m kv (snd s) \<and>
    (\<forall>v. r = Some v \<longrightarrow> kv (snd s) a = Some v)"
proof -
  obtain b s1 where av: "redisAvailable rt s = (b, s1)" by (metis surj_pair)
  note f1 = available_frame [OF av]
  show ?thesis
  proof (cases b)
    case False
    with assms av f1 show ?thesis by (auto simp: cached_lookup_def)
  next
    case True
    obtain g w2 where get: "rdb_Get (cache_rdb c) x a (snd s1) = (g, w2)" by (metis surj_pair)
    note f2 = get_rows [OF get] redis.get_kv [OF get]
    show ?thesis
    proof (cases g)
      case (Inr v)
      with get have "kv (snd s1) a = Some v" by (auto intro: redis.get_hit)
      with assms av True get Inr f1 f2 show ?thesis
        by (auto simp: cached_lookup_def intro: map_le_trans map_leD)
    next
      case (Inl e)
      with assms av True get have r: "r = None"
        and s': "s' = (if \<not> errors_Is e RedisNil then markRedisDown rt (fst s1, w2) else (fst s1, w2))"
        by (auto simp: cached_lookup_def)
      from s' down_frame [of "(fst s1, w2)"] f1 f2 r show ?thesis by (auto intro: map_le_trans)
    qed
  qed
qed

lemma fill_spec:
  assumes "load_and_fill rt c x a s = (r, s')"
  shows "\<exists>w1. st_Get (cache_next c) x a (snd s) = (r, w1) \<and> rows (snd s') = rows (snd s) \<and>
    (kv (snd s') \<subseteq>\<^sub>m kv (snd s) \<or> (\<exists>u. r = Inr u \<and> kv (snd s') \<subseteq>\<^sub>m (kv (snd s))(a \<mapsto> u)))"
proof -
  obtain g w1 where nx: "st_Get (cache_next c) x a (snd s) = (g, w1)" by (metis surj_pair)
  note f1 = load_kv [OF nx] nxt.get_frame [OF nx]
  show ?thesis
  proof (cases g)
    case (Inl e)
    with assms nx f1 show ?thesis by (auto simp: load_and_fill_def)
  next
    case (Inr u)
    obtain b s2 where av: "redisAvailable rt (fst s, w1) = (b, s2)" by (metis surj_pair)
    note f2 = available_frame [OF av]
    show ?thesis
    proof (cases b)
      case False
      with assms nx Inr av f1 f2 show ?thesis
        by (auto simp: load_and_fill_def intro: map_le_trans)
    next
      case True
      obtain err w3 where set: "rdb_Set (cache_rdb c) x a u (cache_ttl c) (snd s2) = (err, w3)"
        by (metis surj_pair)
      from assms nx Inr av True set have r: "r = Inr u"
        and s': "s' = (if err \<noteq> None then markRedisDown rt (fst s2, w3) else (fst s2, w3))"
        by (auto simp: load_and_fill_def)
      have k2: "kv (snd s2) \<subseteq>\<^sub>m kv (snd s)" using f2 f1 by (auto intro: map_le_trans)
      then have "(kv (snd s2))(a \<mapsto> u) \<subseteq>\<^sub>m (kv (snd s))(a \<mapsto> u)" by (rule map_le_upd)
      with k2 set_frame [OF set s'] f1 f2 nx Inr r show ?thesis by (auto intro: map_le_trans)
    qed
  qed
qed

lemma Get_spec:
  assumes "Cache_Get rt c x a s = (r, s')"
  obtains (hit) v where "r = Inr v" "kv (snd s) a = Some v"
      "rows (snd s') = rows (snd s)" "kv (snd s') \<subseteq>\<^sub>m kv (snd s)"
  | (load) w w1 where "st_Get (cache_next c) x a w = (r, w1)" "rows w = rows (snd s)"
      "rows (snd s') = rows (snd s)"
      "kv (snd s') \<subseteq>\<^sub>m kv (snd s) \<or> (\<exists>u. r = Inr u \<and> kv (snd s') \<subseteq>\<^sub>m (kv (snd s))(a \<mapsto> u))"
proof -
  obtain l s1 where lk: "cached_lookup rt c x a s = (l, s1)" by (metis surj_pair)
  note f1 = lookup_spec [OF lk]
  show thesis
  proof (cases l)
    case (Some v)
    with assms lk f1 show thesis by (intro hit [of v]) (auto simp: Cache_Get_def)
  next
    case None
    with assms lk have fl: "load_and_fill rt c x a s1 = (r, s')"
      by (simp add: Cache_Get_def Do_runs)
    from fill_spec [OF this] obtain w1 where w1: "st_Get (cache_next c) x a (snd s1) = (r, w1)"
      "rows (snd s') = rows (snd s1)"
      "kv (snd s') \<subseteq>\<^sub>m kv (snd s1) \<or> (\<exists>u. r = Inr u \<and> kv (snd s') \<subseteq>\<^sub>m (kv (snd s1))(a \<mapsto> u))"
      by blast
    have "kv (snd s1) \<subseteq>\<^sub>m kv (snd s)" using f1 by simp
    then have "(kv (snd s1))(a \<mapsto> u) \<subseteq>\<^sub>m (kv (snd s))(a \<mapsto> u)" for u by (rule map_le_upd)
    then have "kv (snd s') \<subseteq>\<^sub>m kv (snd s) \<or> (\<exists>u. r = Inr u \<and> kv (snd s') \<subseteq>\<^sub>m (kv (snd s))(a \<mapsto> u))"
      using w1(3) f1 by (fastforce intro: map_le_trans)
    with w1(1,2) f1 show thesis by (intro load [OF w1(1)]) simp_all
  qed
qed

lemma Delete_spec:
  assumes "Cache_Delete rt c x a s = (r, s')"
  shows "\<exists>w1. st_Delete (cache_next c) x a (snd s) = (r, w1) \<and> rows (snd s') = rows w1 \<and>
    kv (snd s') \<subseteq>\<^sub>m kv (snd s)"
proof -
  obtain e w1 where nx: "st_Delete (cache_next c) x a (snd s) = (e, w1)" by (metis surj_pair)
  note k1 = delete_kv [OF nx]
  show ?thesis
  proof (cases e)
    case (Some err)
    with assms nx k1 show ?thesis by (auto simp: Cache_Delete_def)
  next
    case None
    obtain b s2 where av: "redisAvailable rt (fst s, w1) = (b, s2)" by (metis surj_pair)
    note f2 = available_frame [OF av]
    show ?thesis
    proof (cases b)
      case False
      with assms nx None av f2 k1 show ?thesis by (auto simp: Cache_Delete_def intro: map_le_trans)
    next
      case True
      obtain err w3 where del: "rdb_Del (cache_rdb c) x a (snd s2) = (err, w3)" by (metis surj_pair)
      from assms nx None av True del have "r = None"
        and s': "s' = (if err \<noteq> None then markRedisDown rt (fst s2, w3) else (fst s2, w3))"
        by (auto simp: Cache_Delete_def)
      with del_frame [OF del s'] f2 nx None k1 show ?thesis by (auto intro: map_le_trans)
    qed
  qed
qed

lemma Delete_ok:
  "Cache_Delete rt c x a s = (None, s') \<Longrightarrow>
   rows (snd s) a \<noteq> None \<and> rows (snd s') = (rows (snd s))(a := None)"
  by (auto dest!: Delete_spec nxt.delete_ok)

lemma coherentD: "coherent rows kv s \<Longrightarrow> kv (snd s) a = Some v \<Longrightarrow> rows (snd s) a = Some v"
  by (auto simp: coherent_def dest: map_leD)

lemma Get_sound:
  assumes "coherent rows kv s" and "Cache_Get rt c x a s = (Inr u, s')"
  shows "rows (snd s) a = Some u"
  using assms(2)
proof (cases rule: Get_spec)
  case (hit v)
  with assms(1) show ?thesis by (auto dest: coherentD)
next
  case (load w w1)
  with nxt.get_ok [OF TrueI load(1)] show ?thesis by simp
qed

lemma Get_coherent:
  assumes "coherent rows kv s" and "Cache_Get rt c x a s = (r, s')"
  shows "coherent rows kv s'"
  using assms(2)
proof (cases rule: Get_spec)
  case (hit v)
  with assms(1) show ?thesis by (auto simp: coherent_def intro: map_le_trans)
next
  case (load w w1)
  from load(4) show ?thesis
  proof
    assume "kv (snd s') \<subseteq>\<^sub>m kv (snd s)"
    with load(3) assms(1) show ?thesis by (auto simp: coherent_def intro: map_le_trans)
  next
    assume "\<exists>u. r = Inr u \<and> kv (snd s') \<subseteq>\<^sub>m (kv (snd s))(a \<mapsto> u)"
    then obtain u where u: "r = Inr u" "kv (snd s') \<subseteq>\<^sub>m (kv (snd s))(a \<mapsto> u)" by blast
    with load nxt.get_ok [OF TrueI load(1) [unfolded u(1)]] have row: "rows (snd s) a = Some u"
      by simp
    have "kv (snd s') \<subseteq>\<^sub>m (rows (snd s))(a \<mapsto> u)"
      using u(2) assms(1) unfolding coherent_def by (rule map_le_trans_upd)
    with load(3) row show ?thesis by (simp add: coherent_def fun_upd_idem)
  qed
qed

lemma Save_coherent:
  assumes "coherent rows kv s" and "Cache_Save rt c x u a s = (r, s')"
  shows "coherent rows kv s'"
proof -
  from Save_spec [OF assms(2)] obtain w1 where
    nx: "st_Save (cache_next c) x u a (snd s) = (r, w1)" and rw: "rows (snd s') = rows w1"
    and k: "kv (snd s') \<subseteq>\<^sub>m kv (snd s) \<or> r = None \<and> kv (snd s') \<subseteq>\<^sub>m (kv (snd s))(a \<mapsto> u)" by blast
  from k show ?thesis
  proof
    assume "kv (snd s') \<subseteq>\<^sub>m kv (snd s)"
    with assms(1) nxt.save_extends [OF nx] rw show ?thesis
      by (auto simp: coherent_def intro: map_le_trans)
  next
    assume "r = None \<and> kv (snd s') \<subseteq>\<^sub>m (kv (snd s))(a \<mapsto> u)"
    with assms(1) nx rw nxt.save_ok [of x u a "snd s" w1] show ?thesis
      by (auto simp: coherent_def intro: map_le_trans_upd)
  qed
qed

end

text \<open>The cache is itself a link reader, its reads being right while it is coherent.\<close>

sublocale cached_store \<subseteq> cached: link_reader "cache_storage rt c" "\<lambda>s. rows (snd s)" "coherent rows kv"
proof (unfold_locales, goal_cases)
  case (1 x u a s s') then show ?case by (auto dest!: Save_spec nxt.save_ok)
next
  case (2 x u a s e s') then show ?case by (auto dest!: Save_spec dest: nxt.save_exists)
next
  case (3 x u a s e s') then show ?case by (auto dest!: Save_spec dest: nxt.save_error)
next
  case (4 x a s r s') then show ?case by (auto elim: Get_spec)
next
  case (5 x a s e s') then show ?case by (auto elim!: Get_spec dest: nxt.get_missing)
next
  case (6 x a s s') then show ?case by (auto dest!: Delete_spec nxt.delete_ok)
next
  case (7 x a s e s') then show ?case by (auto dest!: Delete_spec dest: nxt.delete_missing)
next
  case (8 x a s e s') then show ?case by (auto dest!: Delete_spec dest: nxt.delete_error)
next
  case (9 x u a s e s') then show ?case by (auto dest!: Save_spec dest: nxt.save_url)
next
  case (10 s x a u s') then show ?case by (auto intro: Get_sound)
next
  case (11 s x a r s') then show ?case by (auto intro: Get_coherent)
next
  case (12 s x u a r s') then show ?case by (auto intro: Save_coherent)
qed

section \<open>What the cache can return\<close>

text \<open>Every stored row and every live cache entry has the property \<open>P\<close>.\<close>

definition all_links :: "(string \<Rightarrow> bool) \<Rightarrow> ('w \<Rightarrow> links) \<Rightarrow> ('w \<Rightarrow> links) \<Rightarrow> 'w cached \<Rightarrow> bool" where
  "all_links P rows kv s \<longleftrightarrow> (\<forall>a u. rows (snd s) a = Some u \<or> kv (snd s) a = Some u \<longrightarrow> P u)"

lemma all_links_step:
  assumes "all_links P rows kv s"
    and "\<And>b v. rows (snd s') b = Some v \<Longrightarrow> rows (snd s) b = Some v \<or> P v"
    and "kv (snd s') \<subseteq>\<^sub>m kv (snd s) \<or> P u \<and> kv (snd s') \<subseteq>\<^sub>m (kv (snd s))(a \<mapsto> u)"
  shows "all_links P rows kv s'"
proof -
  have "P v" if "kv (snd s') b = Some v" for b v
    using assms(3)
  proof
    assume "kv (snd s') \<subseteq>\<^sub>m kv (snd s)"
    from map_leD [OF this that] assms(1) show "P v" by (auto simp: all_links_def)
  next
    assume "P u \<and> kv (snd s') \<subseteq>\<^sub>m (kv (snd s))(a \<mapsto> u)"
    with map_leD [of "kv (snd s')" "(kv (snd s))(a \<mapsto> u)" b v] that assms(1) show "P v"
      by (auto simp: all_links_def split: if_splits)
  qed
  moreover have "P v" if "rows (snd s') b = Some v" for b v
    using assms(1) assms(2) [OF that] by (auto simp: all_links_def)
  ultimately show ?thesis by (auto simp: all_links_def)
qed

context cached_store
begin

lemma Save_guarded:
  assumes "all_links P rows kv s" and "P u" and "Cache_Save rt c x u a s = (r, s')"
  shows "all_links P rows kv s'"
proof -
  from Save_spec [OF assms(3)] obtain w1 where nx: "st_Save (cache_next c) x u a (snd s) = (r, w1)"
    and rw: "rows (snd s') = rows w1"
    and kv: "kv (snd s') \<subseteq>\<^sub>m kv (snd s) \<or> r = None \<and> kv (snd s') \<subseteq>\<^sub>m (kv (snd s))(a \<mapsto> u)" by blast
  show ?thesis
  proof (rule all_links_step [OF assms(1)])
    fix b v
    assume v: "rows (snd s') b = Some v"
    show "rows (snd s) b = Some v \<or> P v"
      using v rw assms(2) nxt.save_ok [of x u a "snd s" w1] nxt.save_error [of x u a "snd s" _ w1] nx
      by (cases r) (auto split: if_splits)
  qed (use kv assms(2) in blast)
qed

lemma Get_guarded:
  assumes "all_links P rows kv s" and "Cache_Get rt c x a s = (r, s')"
  shows "all_links P rows kv s' \<and> (\<forall>u. r = Inr u \<longrightarrow> P u)"
proof (rule Get_spec [OF assms(2)])
  fix v
  assume "r = Inr v" "kv (snd s) a = Some v" "rows (snd s') = rows (snd s)" "kv (snd s') \<subseteq>\<^sub>m kv (snd s)"
  with assms(1) show ?thesis by (auto simp: all_links_def dest: map_leD)
next
  fix w w1
  assume ld: "st_Get (cache_next c) x a w = (r, w1)" "rows w = rows (snd s)"
    "rows (snd s') = rows (snd s)"
    "kv (snd s') \<subseteq>\<^sub>m kv (snd s) \<or> (\<exists>u. r = Inr u \<and> kv (snd s') \<subseteq>\<^sub>m (kv (snd s))(a \<mapsto> u))"
  have P: "P u" if "r = Inr u" for u
    using nxt.get_ok [OF TrueI, of x a w u w1] ld that assms(1) by (auto simp: all_links_def)
  show ?thesis
  proof (cases r)
    case (Inl e)
    with ld show ?thesis by (auto intro: all_links_step [OF assms(1)])
  next
    case (Inr u)
    with ld P show ?thesis by (auto intro!: all_links_step [OF assms(1), where u = u and a = a])
  qed
qed

lemma Delete_guarded:
  assumes "all_links P rows kv s" and "Cache_Delete rt c x a s = (r, s')"
  shows "all_links P rows kv s'"
proof -
  from Delete_spec [OF assms(2)] obtain w1 where nx: "st_Delete (cache_next c) x a (snd s) = (r, w1)"
    and rw: "rows (snd s') = rows w1" and kv: "kv (snd s') \<subseteq>\<^sub>m kv (snd s)" by blast
  show ?thesis
  proof (rule all_links_step [OF assms(1)])
    fix b v
    assume v: "rows (snd s') b = Some v"
    show "rows (snd s) b = Some v \<or> P v"
      using v rw nxt.delete_ok [of x a "snd s" w1] nxt.delete_error [of x a "snd s" _ w1] nx
      by (cases r) (auto split: if_splits)
  qed (use kv in blast)
qed

end

sublocale cached_store \<subseteq> guarded: guarded_store "cache_storage rt c" "all_links P rows kv" P for P
  by unfold_locales (auto dest: Save_guarded Get_guarded Delete_guarded)


section \<open>The breaker\<close>

lemma down_then_unavailable:
  assumes "0 \<le> t" and "t + redisCooldown < 2 ^ 63"
  shows "sint (UnixNano (t + redisCooldown)) = t + redisCooldown"
  using assms by (simp add: sint_UnixNano redisCooldown_def Second_def)

text \<open>
  The deployment of the cache: a clock after 1970 and far enough from the year 2262 for the
  timestamps of the breaker not to wrap.
\<close>

locale cached_deployment = cached_store +
  assumes clock_range: "time_Now rt w = (t, w') \<Longrightarrow> 0 \<le> t \<and> t + redisCooldown < 2 ^ 63"
begin

lemma down_not_zero: "fst (markRedisDown rt s) \<noteq> 0"
proof -
  obtain t w' where now: "time_Now rt (snd s) = (t, w')" by (metis surj_pair)
  from clock_range [OF now] have "sint (UnixNano (t + redisCooldown)) = t + redisCooldown"
    by (simp add: down_then_unavailable)
  moreover have "0 < t + redisCooldown"
    using clock_range [OF now] by (simp add: redisCooldown_def Second_def)
  ultimately have "UnixNano (t + redisCooldown) \<noteq> 0" by force
  with now show ?thesis by (simp add: markRedisDown_def)
qed

lemma never_tripped_available: "fst s = 0 \<Longrightarrow> redisAvailable rt s = (b, s') \<Longrightarrow> b"
  using sint_UnixNano clock_range
  by (fastforce simp: redisAvailable_def redisCooldown_def Second_def split: prod.splits)

lemma Delete_coherent:
  assumes "coherent rows kv s" and "fst s = 0" and "Cache_Delete rt c x a s = (None, s')"
    and "fst s' = 0"
  shows "coherent rows kv s'"
proof -
  obtain w1 where nx: "st_Delete (cache_next c) x a (snd s) = (None, w1)"
    using Delete_spec [OF assms(3)] by blast
  obtain b s2 where av: "redisAvailable rt (fst s, w1) = (b, s2)" by (metis surj_pair)
  have b: "b" using never_tripped_available [OF _ av] assms(2) by simp
  obtain err w3 where del: "rdb_Del (cache_rdb c) x a (snd s2) = (err, w3)" by (metis surj_pair)
  have s': "s' = (if err \<noteq> None then markRedisDown rt (fst s2, w3) else (fst s2, w3))"
    using assms(3) nx av b del by (auto simp: Cache_Delete_def)
  with assms(4) have err: "err = None" using down_not_zero [of "(fst s2, w3)"]
    by (cases err) simp_all
  have "kv (snd s2) \<subseteq>\<^sub>m rows (snd s)"
    using available_frame [OF av] delete_kv [OF nx] assms(1)
    by (auto simp: coherent_def intro: map_le_trans)
  then have "(kv (snd s2))(a := None) \<subseteq>\<^sub>m (rows (snd s))(a := None)"
    by (auto simp: map_le_def)
  with del_frame [OF del s'] err available_frame [OF av] nxt.delete_ok [OF nx] show ?thesis
    by (auto simp: coherent_def intro: map_le_trans)
qed

end

end
