(* ===== verification/Ssoclient.thy ===== *)
theory Ssoclient
  imports Go_Context
begin

text \<open>
  \<open>internal/ssoclient/ssoclient.go\<close>: the gRPC client of the sso service. The generated client
  (\<open>authv1.AuthClient\<close>) and the connection are parameters, records of the calls made on them;
  what the start-up relies on of a connection is the locale \<open>grpc_conn\<close>.
\<close>

section \<open>The libraries\<close>

datatype conn_state = Idle | Connecting | Ready | TransientFailure | Shutdown

datatype transport_creds = InsecureCreds | TLSCreds string

record keepalive_params =
  ka_Time :: duration
  ka_Timeout :: duration
  ka_PermitWithoutStream :: bool

record ('w, 'c) grpc_lib =
  grpc_NewClient :: "string \<Rightarrow> transport_creds \<Rightarrow> keepalive_params \<Rightarrow> ('w, go_error + 'c) io"
  conn_Connect :: "'c \<Rightarrow> 'w \<Rightarrow> 'w"
  conn_GetState :: "'c \<Rightarrow> ('w, conn_state) io"
  conn_WaitForStateChange :: "ctx \<Rightarrow> 'c \<Rightarrow> conn_state \<Rightarrow> ('w, bool) io"
  conn_Close :: "'c \<Rightarrow> ('w, go_error option) io"

type_synonym uint64 = "64 word"

record 'w AuthClient =
  api_Register :: "ctx \<Rightarrow> string \<Rightarrow> string \<Rightarrow> ('w, go_error + uint64) io"
  api_Authenticate :: "ctx \<Rightarrow> string \<Rightarrow> string \<Rightarrow> uint64 \<Rightarrow> ('w, go_error + string \<times> string) io"
  api_RefreshTokens :: "ctx \<Rightarrow> string \<Rightarrow> uint64 \<Rightarrow> ('w, go_error + string \<times> string) io"
  api_Logout :: "ctx \<Rightarrow> string \<Rightarrow> ('w, go_error option) io"

section \<open>The client\<close>

definition defaultDialTimeout :: duration where
  "defaultDialTimeout = 5 * Second"

definition defaultRPCTimeout :: duration where
  "defaultRPCTimeout = 5 * Second"

record Options =
  opt_Addr :: string
  opt_ApplicationID :: uint64
  opt_DialTimeout :: duration
  opt_TLS :: "transport_creds option"

record ('w, 'c) Client =
  cl_conn :: 'c
  cl_api :: "'w AuthClient"
  cl_appID :: uint64

definition Options_Validate :: "Options \<Rightarrow> go_error option" where
  "Options_Validate opts =
     (if opt_Addr opts = [] then Some (Sentinel ErrMissingAddress)
      else if opt_ApplicationID opts = 0 then Some (Sentinel SSOErrMissingApplicationID)
      else None)"

partial_function (option) waitUntilReady ::
  "'w runtime \<Rightarrow> ('w, 'c) grpc_lib \<Rightarrow> ctx \<Rightarrow> 'c \<Rightarrow> 'w \<Rightarrow> (go_error option \<times> 'w) option" where
  "waitUntilReady rt lib ctx conn w =
     (case conn_GetState lib conn w of (state, w1) \<Rightarrow>
        if state = Ready then Some (None, w1)
        else (case conn_WaitForStateChange lib ctx conn state w1 of (changed, w2) \<Rightarrow>
                if \<not> changed then Some (ctx_Err rt ctx w2)
                else waitUntilReady rt lib ctx conn w2))"

definition sso_keepalive :: keepalive_params where
  "sso_keepalive = \<lparr>ka_Time = 10 * Second, ka_Timeout = 3 * Second, ka_PermitWithoutStream = True\<rparr>"

text \<open>\<open>None\<close> is that \<open>New\<close> does not return.\<close>

definition Client_New ::
  "'w runtime \<Rightarrow> ('w, 'c) grpc_lib \<Rightarrow> ('c \<Rightarrow> 'w AuthClient) \<Rightarrow> ctx \<Rightarrow> Options \<Rightarrow> 'w \<Rightarrow>
   ((go_error + ('w, 'c) Client) \<times> 'w) option" where
  "Client_New rt lib NewAuthClient ctx opts w =
     (case Options_Validate opts of
        Some err \<Rightarrow> Some (Inl err, w)
      | None \<Rightarrow>
          (let creds = (case opt_TLS opts of None \<Rightarrow> InsecureCreds | Some c \<Rightarrow> c) in
           case grpc_NewClient lib (opt_Addr opts) creds sso_keepalive w of
             (Inl err, w1) \<Rightarrow> Some (Inl (Wrap ''ssoclient: create client: '' err []), w1)
           | (Inr conn, w1) \<Rightarrow>
               (let timeout = (if opt_DialTimeout opts \<le> 0 then defaultDialTimeout else opt_DialTimeout opts) in
                case time_Now rt w1 of (now, w2) \<Rightarrow>
                  let connectCtx = WithTimeout now ctx timeout in
                  (case waitUntilReady rt lib connectCtx conn (conn_Connect lib conn w2) of
                     None \<Rightarrow> None
                   | Some (Some err, w3) \<Rightarrow>
                       (case conn_Close lib conn w3 of (e, w4) \<Rightarrow>
                          Some (Inl (Wrap (''ssoclient: connect to '' @ opt_Addr opts @ '': '') err []), w4))
                   | Some (None, w3) \<Rightarrow>
                       Some (Inr \<lparr>cl_conn = conn, cl_api = NewAuthClient conn, cl_appID = opt_ApplicationID opts\<rparr>, w3)))))"

definition Client_Close :: "('w, 'c) grpc_lib \<Rightarrow> ('w, 'c) Client \<Rightarrow> ('w, go_error option) io" where
  "Client_Close lib c w = conn_Close lib (cl_conn c) w"

section \<open>The calls\<close>

definition mapErr :: "(go_error \<Rightarrow> string) \<Rightarrow> go_error option \<Rightarrow> go_error option" where
  "mapErr foreign e =
     (case e of
        None \<Rightarrow> None
      | Some err \<Rightarrow>
          (case status_FromError foreign err of
             None \<Rightarrow> Some err
           | Some (code, msg) \<Rightarrow>
               (case code of
                  InvalidArgument \<Rightarrow> Some (Wrap [] (Sentinel ErrInvalidCredentials) ('': '' @ msg))
                | AlreadyExists \<Rightarrow> Some (Wrap [] (Sentinel ErrUserExists) ('': '' @ msg))
                | Unauthenticated \<Rightarrow> Some (Wrap [] (Sentinel ErrRefreshInvalid) ('': '' @ msg))
                | OtherCode n \<Rightarrow> Some (Wrap ''sso rpc: '' err []))))"

definition mapErr_res :: "(go_error \<Rightarrow> string) \<Rightarrow> go_error + 'a \<Rightarrow> go_error + 'a" where
  "mapErr_res foreign r =
     (case r of
        Inr x \<Rightarrow> Inr x
      | Inl err \<Rightarrow> (case mapErr foreign (Some err) of Some e \<Rightarrow> Inl e | None \<Rightarrow> Inl err))"

definition Client_Register ::
  "'w runtime \<Rightarrow> (go_error \<Rightarrow> string) \<Rightarrow> ('w, 'c) Client \<Rightarrow> ctx \<Rightarrow> string \<Rightarrow> string \<Rightarrow> ('w, go_error + uint64) io" where
  "Client_Register rt foreign c ctx email password w =
     (case time_Now rt w of (now, w1) \<Rightarrow>
        case api_Register (cl_api c) (WithTimeout now ctx defaultRPCTimeout) email password w1 of
          (r, w2) \<Rightarrow> (mapErr_res foreign r, w2))"

definition Client_Login ::
  "'w runtime \<Rightarrow> (go_error \<Rightarrow> string) \<Rightarrow> ('w, 'c) Client \<Rightarrow> ctx \<Rightarrow> string \<Rightarrow> string \<Rightarrow>
   ('w, go_error + string \<times> string) io" where
  "Client_Login rt foreign c ctx email password w =
     (case time_Now rt w of (now, w1) \<Rightarrow>
        case api_Authenticate (cl_api c) (WithTimeout now ctx defaultRPCTimeout) email password (cl_appID c) w1 of
          (r, w2) \<Rightarrow> (mapErr_res foreign r, w2))"

definition Client_RefreshTokens ::
  "'w runtime \<Rightarrow> (go_error \<Rightarrow> string) \<Rightarrow> ('w, 'c) Client \<Rightarrow> ctx \<Rightarrow> string \<Rightarrow> ('w, go_error + string \<times> string) io" where
  "Client_RefreshTokens rt foreign c ctx refreshToken w =
     (case time_Now rt w of (now, w1) \<Rightarrow>
        case api_RefreshTokens (cl_api c) (WithTimeout now ctx defaultRPCTimeout) refreshToken (cl_appID c) w1 of
          (r, w2) \<Rightarrow> (mapErr_res foreign r, w2))"

definition Client_Logout ::
  "'w runtime \<Rightarrow> (go_error \<Rightarrow> string) \<Rightarrow> ('w, 'c) Client \<Rightarrow> ctx \<Rightarrow> string \<Rightarrow> ('w, go_error option) io" where
  "Client_Logout rt foreign c ctx refreshToken w =
     (case time_Now rt w of (now, w1) \<Rightarrow>
        case api_Logout (cl_api c) (WithTimeout now ctx defaultRPCTimeout) refreshToken w1 of
          (e, w2) \<Rightarrow> (mapErr foreign e, w2))"


section \<open>Which error becomes which\<close>

lemma mapErr_Is:
  assumes "mapErr foreign (Some err) = Some e"
  shows "errors_Is e ErrInvalidCredentials \<longleftrightarrow>
           status_code err = Some InvalidArgument \<or> status_code err = None \<and> errors_Is err ErrInvalidCredentials"
    and "errors_Is e ErrUserExists \<longleftrightarrow>
           status_code err = Some AlreadyExists \<or> status_code err = None \<and> errors_Is err ErrUserExists"
    and "errors_Is e ErrRefreshInvalid \<longleftrightarrow>
           status_code err = Some Unauthenticated \<or> status_code err = None \<and> errors_Is err ErrRefreshInvalid"
proof -
  have none: "errors_Is err t \<Longrightarrow> status_code err = None" for t
    by (induction err t rule: errors_Is.induct) auto
  note c = status_FromError_code [of foreign err]
  show "errors_Is e ErrInvalidCredentials \<longleftrightarrow>
      status_code err = Some InvalidArgument \<or> status_code err = None \<and> errors_Is err ErrInvalidCredentials"
    "errors_Is e ErrUserExists \<longleftrightarrow>
      status_code err = Some AlreadyExists \<or> status_code err = None \<and> errors_Is err ErrUserExists"
    "errors_Is e ErrRefreshInvalid \<longleftrightarrow>
      status_code err = Some Unauthenticated \<or> status_code err = None \<and> errors_Is err ErrRefreshInvalid"
    using assms c none
    by (auto simp: mapErr_def split: option.splits grpc_code.splits prod.splits)
qed

lemma mapErr_total: "mapErr foreign e = None \<longleftrightarrow> e = None"
  by (auto simp: mapErr_def split: option.splits grpc_code.splits prod.splits)

lemma mapErr_res_cases:
  obtains (ok) x where "r = Inr x" "mapErr_res foreign r = Inr x"
  | (err) err e where "r = Inl err" "mapErr_res foreign r = Inl e" "mapErr foreign (Some err) = Some e"
proof (cases r)
  case (Inl err)
  have "mapErr foreign (Some err) \<noteq> None" by (simp add: mapErr_total)
  then obtain e where "mapErr foreign (Some err) = Some e" by blast
  with Inl show thesis by (intro err [of err e]) (simp_all add: mapErr_res_def)
qed (simp add: ok mapErr_res_def)

section \<open>Start-up\<close>

text \<open>
  What \<open>New\<close> relies on of a connection: \<open>WaitForStateChange\<close> returns false only when its
  context is done, and it returns true only finitely often for a context with a deadline, since a
  connection changes its state only finitely often before any instant (\<open>changes\<close> bounds how
  often). Of a context without a deadline nothing is assumed: a connection may go back and forth
  between connecting and failing as long as the process runs.
\<close>

locale grpc_conn =
  fixes rt :: "'w runtime" and lib :: "('w, 'c) grpc_lib" and changes :: "time \<Rightarrow> 'c \<Rightarrow> 'w \<Rightarrow> nat"
  assumes wait_false: "conn_WaitForStateChange lib x c st w = (False, w') \<Longrightarrow> ctx_Err rt x w' = (e, w'') \<Longrightarrow> e \<noteq> None"
    and wait_true: "ctx_deadline x = Some t \<Longrightarrow> conn_WaitForStateChange lib x c st w = (True, w') \<Longrightarrow>
      changes t c w' < changes t c w"
    and state_changes: "conn_GetState lib c w = (st, w') \<Longrightarrow> changes t c w' \<le> changes t c w"
begin

lemma waitUntilReady_returns:
  assumes deadline: "ctx_deadline x = Some t"
  shows "\<exists>e w'. waitUntilReady rt lib x c w = Some (e, w') \<and>
     (e = None \<longrightarrow> (\<exists>w0. conn_GetState lib c w0 = (Ready, w'))) \<and>
     (e \<noteq> None \<longrightarrow> (\<exists>w0. ctx_Err rt x w0 = (e, w')))"
proof (induction "changes t c w" arbitrary: w rule: less_induct)
  case less
  obtain st w1 where st: "conn_GetState lib c w = (st, w1)" by (metis surj_pair)
  show ?case
  proof (cases "st = Ready")
    case True
    with st show ?thesis by (subst waitUntilReady.simps) auto
  next
    case False
    obtain b w2 where wt: "conn_WaitForStateChange lib x c st w1 = (b, w2)" by (metis surj_pair)
    show ?thesis
    proof (cases b)
      case True
      with wt st have "changes t c w2 < changes t c w"
        using wait_true [OF deadline, of c st w1 w2] state_changes [OF st, of t] by simp
      from less [OF this] True False st wt show ?thesis by (subst waitUntilReady.simps) simp
    next
      case b: False
      obtain e w3 where ce: "ctx_Err rt x w2 = (e, w3)" by (metis surj_pair)
      from wt b have "conn_WaitForStateChange lib x c st w1 = (False, w2)" by simp
      from wait_false [OF this ce] False b st wt ce show ?thesis
        by (subst waitUntilReady.simps) auto
    qed
  qed
qed

end

section \<open>An executable connection\<close>

text \<open>
  The world of the witnesses: the states the connection goes through until the deadline of the
  context, and the connections that are open. Under a context without a deadline the connection
  keeps changing its state.
\<close>

type_synonym conn_world = "conn_state list \<times> nat set"

definition script_rt :: "conn_world runtime" where
  "script_rt = \<lparr>time_Now = (\<lambda>w. (0, w)),
     ctx_Err = (\<lambda>x w. (if length (fst w) \<le> 1 then Some (Sentinel ContextDeadlineExceeded) else None, w))\<rparr>"

definition script_grpc :: "(conn_world, nat) grpc_lib" where
  "script_grpc =
     \<lparr>grpc_NewClient = (\<lambda>addr creds ka w. (Inr 0, (fst w, insert 0 (snd w)))),
      conn_Connect = (\<lambda>c w. w),
      conn_GetState = (\<lambda>c w. (case fst w of st # _ \<Rightarrow> st | [] \<Rightarrow> Shutdown, w)),
      conn_WaitForStateChange = (\<lambda>x c st w. if length (fst w) \<le> 1 then (ctx_deadline x = None, w) else (True, (tl (fst w), snd w))),
      conn_Close = (\<lambda>c w. (None, (fst w, snd w - {c})))\<rparr>"

lemma script_simps [simp]:
  "time_Now script_rt w = (0, w)"
  "ctx_Err script_rt x w = (if length (fst w) \<le> 1 then Some (Sentinel ContextDeadlineExceeded) else None, w)"
  "grpc_NewClient script_grpc addr creds ka w = (Inr 0, (fst w, insert 0 (snd w)))"
  "conn_Connect script_grpc c w = w"
  "conn_GetState script_grpc c w = (case fst w of st # _ \<Rightarrow> st | [] \<Rightarrow> Shutdown, w)"
  "conn_WaitForStateChange script_grpc x c st w =
     (if length (fst w) \<le> 1 then (ctx_deadline x = None, w) else (True, (tl (fst w), snd w)))"
  "conn_Close script_grpc c w = (None, (fst w, snd w - {c}))"
  by (simp_all add: script_rt_def script_grpc_def)

interpretation script: grpc_conn script_rt script_grpc "\<lambda>t c w. length (fst w)"
  by unfold_locales (auto split: if_splits)

section \<open>Properties\<close>

text \<open>The deadline of the wait, in the terms of the comment on \<open>New\<close>.\<close>

definition dial_deadline :: "Options \<Rightarrow> time \<Rightarrow> ctx \<Rightarrow> time" where
  "dial_deadline opts now ctx =
     (let d = now + (if opt_DialTimeout opts \<le> 0 then 5 * Second else opt_DialTimeout opts)
      in case ctx_deadline ctx of None \<Rightarrow> d | Some t \<Rightarrow> min t d)"

text \<open>
  C37. Start-up of the client: \<open>New\<close> always returns, also when its own context has no deadline,
  because it waits under one of \<open>DialTimeout\<close> (or its default): of the connection it is assumed
  only that it changes state finitely often before any instant. It returns a client only for an
  address and an application id that are set, and only after it has seen the connection ready,
  with nothing happening in between. If the connection does not become ready, the context whose
  deadline is the earlier of \<open>DialTimeout\<close> from now and that of the caller was done, and what
  \<open>New\<close> did last was to close the connection.
\<close>

theorem Client_New_ready_or_closed:
  assumes "grpc_conn rt lib changes"
  shows "\<exists>r w'. Client_New rt lib mk ctx opts w = Some (r, w') \<and>
    (\<forall>c. r = Inr c \<longrightarrow> opt_Addr opts \<noteq> [] \<and> cl_appID c = opt_ApplicationID opts \<and> cl_appID c \<noteq> 0 \<and>
       (\<exists>w0. conn_GetState lib (cl_conn c) w0 = (Ready, w'))) \<and>
    (\<forall>e. r = Inl e \<longrightarrow>
       (Options_Validate opts = Some e \<and> w' = w) \<or>
       (\<exists>cr err. grpc_NewClient lib (opt_Addr opts) cr sso_keepalive w = (Inl err, w')) \<or>
       (\<exists>cr conn w1 now w2 x err w0 w3 e'.
          grpc_NewClient lib (opt_Addr opts) cr sso_keepalive w = (Inr conn, w1) \<and>
          time_Now rt w1 = (now, w2) \<and> ctx_deadline x = Some (dial_deadline opts now ctx) \<and>
          ctx_Err rt x w0 = (Some err, w3) \<and> conn_Close lib conn w3 = (e', w')))"
proof (cases "Options_Validate opts")
  case (Some e)
  then show ?thesis by (simp add: Client_New_def)
next
  case None
  then have opts: "opt_Addr opts \<noteq> []" "opt_ApplicationID opts \<noteq> 0"
    by (auto simp: Options_Validate_def split: if_splits)
  let ?cr = "case opt_TLS opts of None \<Rightarrow> InsecureCreds | Some c \<Rightarrow> c"
  obtain n w1 where nc: "grpc_NewClient lib (opt_Addr opts) ?cr sso_keepalive w = (n, w1)"
    by (metis surj_pair)
  show ?thesis
  proof (cases n)
    case (Inl err)
    with nc None show ?thesis by (auto simp: Client_New_def Let_def)
  next
    case (Inr conn)
    obtain now w2 where now: "time_Now rt w1 = (now, w2)" by (metis surj_pair)
    let ?x = "WithTimeout now ctx (if opt_DialTimeout opts \<le> 0 then defaultDialTimeout else opt_DialTimeout opts)"
    have deadline: "ctx_deadline ?x = Some (dial_deadline opts now ctx)"
      by (simp add: WithTimeout_def dial_deadline_def defaultDialTimeout_def Let_def split: option.splits)
    from grpc_conn.waitUntilReady_returns [OF assms deadline]
    obtain e w3 where wait: "waitUntilReady rt lib ?x conn (conn_Connect lib conn w2) = Some (e, w3)"
      and rd: "e = None \<longrightarrow> (\<exists>w0. conn_GetState lib conn w0 = (Ready, w3))"
      and ex: "e \<noteq> None \<longrightarrow> (\<exists>w0. ctx_Err rt ?x w0 = (e, w3))" by metis
    obtain ce w4 where close: "conn_Close lib conn w3 = (ce, w4)" by (metis surj_pair)
    show ?thesis
    proof (cases e)
      case None
      with nc Inr now wait rd opts \<open>Options_Validate opts = None\<close> show ?thesis
        by (auto simp: Client_New_def Let_def)
    next
      case (Some err)
      with nc Inr now wait close \<open>Options_Validate opts = None\<close>
      have "\<exists>e. Client_New rt lib mk ctx opts w = Some (Inl e, w4)"
        by (simp add: Client_New_def Let_def)
      moreover have "\<exists>cr conn w1 now w2 x err w0 w3 e'.
          grpc_NewClient lib (opt_Addr opts) cr sso_keepalive w = (Inr conn, w1) \<and>
          time_Now rt w1 = (now, w2) \<and> ctx_deadline x = Some (dial_deadline opts now ctx) \<and>
          ctx_Err rt x w0 = (Some err, w3) \<and> conn_Close lib conn w3 = (e', w4)"
        using nc Inr now deadline ex Some close by blast
      ultimately show ?thesis by blast
    qed
  qed
qed

definition sso_opts :: Options where
  "sso_opts = \<lparr>opt_Addr = ''sso:44044'', opt_ApplicationID = 7, opt_DialTimeout = 0, opt_TLS = None\<rparr>"

definition offline_api :: "'c \<Rightarrow> 'w AuthClient" where
  "offline_api conn =
     \<lparr>api_Register = (\<lambda>x e p w. (Inl (StatusError (OtherCode 14) ''unavailable''), w)),
      api_Authenticate = (\<lambda>x e p a w. (Inl (StatusError (OtherCode 14) ''unavailable''), w)),
      api_RefreshTokens = (\<lambda>x t a w. (Inl (StatusError (OtherCode 14) ''unavailable''), w)),
      api_Logout = (\<lambda>x t w. (Some (StatusError (OtherCode 14) ''unavailable''), w))\<rparr>"

theorem Client_New_ready_or_closed_witness:
  "\<exists>r w'. Client_New script_rt script_grpc offline_api Background sso_opts ([Idle, Connecting, TransientFailure], {}) =
     Some (r, w') \<and> (\<exists>e. r = Inl e) \<and> snd w' = {}"
proof -
  let ?w = "([Idle, Connecting, TransientFailure], {}) :: conn_world"
  obtain r w' where run: "Client_New script_rt script_grpc offline_api Background sso_opts ?w = Some (r, w')"
    using Client_New_ready_or_closed [OF script.grpc_conn_axioms] by blast
  moreover have "\<exists>e. Client_New script_rt script_grpc offline_api Background sso_opts ?w =
      Some (Inl e, ([TransientFailure], {}))"
    by (simp add: Client_New_def Options_Validate_def sso_opts_def waitUntilReady.simps WithTimeout_def Let_def)
  ultimately show ?thesis by auto
qed

end
