(* ===== verification/Storage_Init.thy ===== *)
theory Storage_Init
  imports Postgres Redis_Cache Ssoclient
begin

text \<open>
  Opening and closing what the service holds: \<open>internal/storage/postgres/initPostgres.go\<close>, the
  constructor and \<open>Close\<close> of \<open>repository.go\<close>, and \<open>internal/storage/redis/initRedis.go\<close>. The
  drivers are parameters, records of the calls made on them. The locale \<open>resource_log\<close> says
  what opening and closing are in terms of a record of the resources opened and closed so far;
  what each constructor leaves open is proved from it. The log lines of these functions are left
  out.
\<close>

section \<open>Postgres\<close>

record pool_config =
  pc_ConnConfig :: string
  pc_MaxConns :: int
  pc_MinConns :: int
  pc_MaxConnLifetime :: duration
  pc_MaxConnIdleTime :: duration
  pc_HealthCheckPeriod :: duration

record ('w, 'p) pgx_lib =
  pgxpool_ParseConfig :: "string \<Rightarrow> ('w, go_error + pool_config) io"
  pgxpool_NewWithConfig :: "ctx \<Rightarrow> pool_config \<Rightarrow> ('w, go_error + 'p) io"
  pgxpool_New :: "ctx \<Rightarrow> string \<Rightarrow> ('w, go_error + 'p) io"
  pgxpool_ops :: "'p \<Rightarrow> 'w Pool"
  pgxpool_Close :: "'p \<Rightarrow> 'w \<Rightarrow> 'w"

definition Hour :: duration where
  "Hour = 60 * Minute"

definition poolMaxConns :: int where
  "poolMaxConns = 20"

definition poolMinConns :: int where
  "poolMinConns = 2"

definition poolMaxConnLifetime :: duration where
  "poolMaxConnLifetime = Hour"

definition poolMaxConnIdleTime :: duration where
  "poolMaxConnIdleTime = 15 * Minute"

definition poolHealthCheckPeriod :: duration where
  "poolHealthCheckPeriod = Minute"

definition connectTimeout :: duration where
  "connectTimeout = 5 * Second"

definition PostgresRepo_New :: "('w, 'p) pgx_lib \<Rightarrow> ctx \<Rightarrow> string \<Rightarrow> ('w, go_error + 'p) io" where
  "PostgresRepo_New lib ctx connString w =
     (case pgxpool_New lib ctx connString w of
        (Inl err, w1) \<Rightarrow> (Inl (op_wrap ''storage.postgres.New'' err), w1)
      | (Inr pool, w1) \<Rightarrow> (Inr pool, w1))"

text \<open>The pool of a repository is a pointer, \<open>None\<close> when it is nil.\<close>

definition PostgresRepo_Close :: "('w, 'p) pgx_lib \<Rightarrow> 'p option \<Rightarrow> 'w \<Rightarrow> 'w" where
  "PostgresRepo_Close lib pool w = (case pool of None \<Rightarrow> w | Some p \<Rightarrow> pgxpool_Close lib p w)"

definition InitPostgres ::
  "'w runtime \<Rightarrow> ('w, 'p) pgx_lib \<Rightarrow> string \<Rightarrow> ('w, go_error + 'p \<times> ('w \<Rightarrow> 'w)) io" where
  "InitPostgres rt lib dsn w =
     (let op = ''postgres.InitPostgres'' in
      case time_Now rt w of (now, w0) \<Rightarrow>
      let ctx = WithTimeout now Background connectTimeout in
      case pgxpool_ParseConfig lib dsn w0 of
        (Inl err, w1) \<Rightarrow> (Inl (op_wrap op err), w1)
      | (Inr cfg, w1) \<Rightarrow>
          (let poolCfg = cfg\<lparr>pc_MaxConns := poolMaxConns, pc_MinConns := poolMinConns,
                            pc_MaxConnLifetime := poolMaxConnLifetime,
                            pc_MaxConnIdleTime := poolMaxConnIdleTime,
                            pc_HealthCheckPeriod := poolHealthCheckPeriod\<rparr>
           in case pgxpool_NewWithConfig lib ctx poolCfg w1 of
                (Inl err, w2) \<Rightarrow> (Inl (op_wrap op err), w2)
              | (Inr pool, w2) \<Rightarrow>
                  (case pool_Ping (pgxpool_ops lib pool) ctx w2 of
                     (Some err, w3) \<Rightarrow> (Inl (op_wrap op err), pgxpool_Close lib pool w3)
                   | (None, w3) \<Rightarrow> (Inr (pool, pgxpool_Close lib pool), w3))))"

section \<open>Redis\<close>

record redis_options =
  ro_Addr :: string
  ro_PoolSize :: int
  ro_MinIdleConns :: int
  ro_DialTimeout :: duration
  ro_ReadTimeout :: duration
  ro_WriteTimeout :: duration

record ('w, 'r) redis_lib =
  redis_NewClient :: "redis_options \<Rightarrow> ('w, 'r) io"
  redis_ops :: "'r \<Rightarrow> 'w Redis"
  redis_Close :: "'r \<Rightarrow> ('w, go_error option) io"

definition dialTimeout :: duration where
  "dialTimeout = 3 * Second"

definition readTimeout :: duration where
  "readTimeout = 2 * Second"

definition writeTimeout :: duration where
  "writeTimeout = 2 * Second"

definition pingTimeout :: duration where
  "pingTimeout = 3 * Second"

definition InitRedis ::
  "'w runtime \<Rightarrow> ('w, 'r) redis_lib \<Rightarrow> string \<Rightarrow> ('w, go_error + 'r \<times> ('w \<Rightarrow> 'w)) io" where
  "InitRedis rt lib addr w =
     (let op = ''redis.InitRedis'' in
      case time_Now rt w of (now, w0) \<Rightarrow>
      let ctx = WithTimeout now Background pingTimeout in
      case redis_NewClient lib
             \<lparr>ro_Addr = addr, ro_PoolSize = 10, ro_MinIdleConns = 2, ro_DialTimeout = dialTimeout,
              ro_ReadTimeout = readTimeout, ro_WriteTimeout = writeTimeout\<rparr> w0 of (rdb, w1) \<Rightarrow>
        (case rdb_Ping (redis_ops lib rdb) ctx w1 of
           (Some err, w2) \<Rightarrow> (Inl (op_wrap op err), w2)
         | (None, w2) \<Rightarrow> (Inr (rdb, \<lambda>w. snd (redis_Close lib rdb w)), w2)))"

section \<open>What is open\<close>

datatype ('p, 'r, 'c) resource = PoolRes 'p | RedisRes 'r | ConnRes 'c

datatype 'h event = Opened 'h | Closed 'h

text \<open>
  \<open>log\<close> is the record of what was opened and closed. Only the constructors that succeed add an
  opening and only \<open>Close\<close> adds a closing; pinging, waiting, parsing and the clock add nothing.
\<close>

locale resource_log = grpc_conn rt grpc changes
  for rt :: "'w runtime" and grpc :: "('w, 'c) grpc_lib" and changes :: "time \<Rightarrow> 'c \<Rightarrow> 'w \<Rightarrow> nat" +
  fixes pgx :: "('w, 'p) pgx_lib" and rds :: "('w, 'r) redis_lib"
    and log :: "'w \<Rightarrow> ('p, 'r, 'c) resource event list"
  assumes log_now: "time_Now rt w = (t, w') \<Longrightarrow> log w' = log w"
    and log_ctx: "ctx_Err rt x w = (e, w') \<Longrightarrow> log w' = log w"
    and log_parse: "pgxpool_ParseConfig pgx dsn w = (pc, w') \<Longrightarrow> log w' = log w"
    and log_pool: "pgxpool_NewWithConfig pgx x cf w = (np, w') \<Longrightarrow>
      log w' = log w @ (case np of Inl _ \<Rightarrow> [] | Inr p \<Rightarrow> [Opened (PoolRes p)])"
    and log_pool_ping: "pool_Ping (pgxpool_ops pgx p) x w = (e, w') \<Longrightarrow> log w' = log w"
    and log_pool_close: "log (pgxpool_Close pgx p w) = log w @ [Closed (PoolRes p)]"
    and log_redis: "redis_NewClient rds ro w = (rdb, w') \<Longrightarrow> log w' = log w @ [Opened (RedisRes rdb)]"
    and log_redis_ping: "rdb_Ping (redis_ops rds rdb) x w = (e, w') \<Longrightarrow> log w' = log w"
    and log_redis_close: "redis_Close rds rdb w = (e, w') \<Longrightarrow> log w' = log w @ [Closed (RedisRes rdb)]"
    and log_conn: "grpc_NewClient grpc a cr ka w = (nc, w') \<Longrightarrow>
      log w' = log w @ (case nc of Inl _ \<Rightarrow> [] | Inr c \<Rightarrow> [Opened (ConnRes c)])"
    and log_connect: "log (conn_Connect grpc c w) = log w"
    and log_state: "conn_GetState grpc c w = (cs, w') \<Longrightarrow> log w' = log w"
    and log_wait: "conn_WaitForStateChange grpc x c cs w = (b, w') \<Longrightarrow> log w' = log w"
    and log_conn_close: "conn_Close grpc c w = (e, w') \<Longrightarrow> log w' = log w @ [Closed (ConnRes c)]"
begin

lemma InitPostgres_log:
  assumes "InitPostgres rt pgx dsn w = (res, w')"
  shows "(\<exists>e hs. res = Inl e \<and> log w' = log w @ map Opened hs @ map Closed (rev hs) \<and>
      length hs \<le> 1 \<and> set hs \<subseteq> range PoolRes) \<or>
    (\<exists>p cl. res = Inr (p, cl) \<and> log w' = log w @ [Opened (PoolRes p)] \<and>
       (\<forall>v. log (cl v) = log v @ [Closed (PoolRes p)]))"
proof -
  obtain now w0 where now: "time_Now rt w = (now, w0)" by (metis surj_pair)
  obtain pc w1 where pc: "pgxpool_ParseConfig pgx dsn w0 = (pc, w1)" by (metis surj_pair)
  have l1: "log w1 = log w" using log_now [OF now] log_parse [OF pc] by simp
  show ?thesis
  proof (cases pc)
    case (Inl err)
    with assms now pc l1 show ?thesis by (auto simp: InitPostgres_def Let_def intro: exI [of _ "[]"])
  next
    case (Inr c)
    let ?x = "WithTimeout now Background connectTimeout"
    let ?c = "c\<lparr>pc_MaxConns := poolMaxConns, pc_MinConns := poolMinConns,
      pc_MaxConnLifetime := poolMaxConnLifetime, pc_MaxConnIdleTime := poolMaxConnIdleTime,
      pc_HealthCheckPeriod := poolHealthCheckPeriod\<rparr>"
    obtain np w2 where np: "pgxpool_NewWithConfig pgx ?x ?c w1 = (np, w2)" by (metis surj_pair)
    show ?thesis
    proof (cases np)
      case (Inl err)
      with assms now pc Inr np l1 log_pool [OF np] show ?thesis
        by (auto simp: InitPostgres_def Let_def intro: exI [of _ "[]"])
    next
      case p: (Inr p)
      obtain e w3 where ping: "pool_Ping (pgxpool_ops pgx p) ?x w2 = (e, w3)" by (metis surj_pair)
      have l3: "log w3 = log w @ [Opened (PoolRes p)]"
        using log_pool_ping [OF ping] log_pool [OF np] p l1 by simp
      show ?thesis
        using assms now pc Inr np p ping l3
        by (cases e) (auto simp: InitPostgres_def Let_def log_pool_close intro: exI [of _ "[PoolRes p]"])
    qed
  qed
qed

lemma InitRedis_log:
  assumes "InitRedis rt rds addr w = (res, w')"
  shows "\<exists>rdb. log w' = log w @ [Opened (RedisRes rdb)] \<and>
    ((\<exists>e. res = Inl e) \<or>
     (\<exists>cl. res = Inr (rdb, cl) \<and> (\<forall>v. log (cl v) = log v @ [Closed (RedisRes rdb)])))"
proof -
  let ?o = "\<lparr>ro_Addr = addr, ro_PoolSize = 10, ro_MinIdleConns = 2, ro_DialTimeout = dialTimeout,
              ro_ReadTimeout = readTimeout, ro_WriteTimeout = writeTimeout\<rparr>"
  obtain now w0 where now: "time_Now rt w = (now, w0)" by (metis surj_pair)
  obtain rdb w1 where new: "redis_NewClient rds ?o w0 = (rdb, w1)" by (metis surj_pair)
  obtain e w2 where ping: "rdb_Ping (redis_ops rds rdb) (WithTimeout now Background pingTimeout) w1 = (e, w2)"
    by (metis surj_pair)
  have l: "log w2 = log w @ [Opened (RedisRes rdb)]"
    using log_now [OF now] log_redis [OF new] log_redis_ping [OF ping] by simp
  have cl: "log (snd (redis_Close rds rdb v)) = log v @ [Closed (RedisRes rdb)]" for v
    by (rule log_redis_close [of _ _ "fst (redis_Close rds rdb v)"]) simp
  show ?thesis
    using assms now new ping l cl
    by (cases e) (auto simp: InitRedis_def Let_def intro!: exI [of _ rdb])
qed

lemma waitUntilReady_log:
  assumes "waitUntilReady rt grpc x c w = Some (e, w')" and deadline: "ctx_deadline x = Some t"
  shows "log w' = log w"
proof -
  have "\<forall>y. waitUntilReady rt grpc x c w = Some y \<longrightarrow> log (snd y) = log w"
  proof (induction "changes t c w" arbitrary: w rule: less_induct)
    case less
    obtain st w1 where st: "conn_GetState grpc c w = (st, w1)" by (metis surj_pair)
    obtain b w2 where wt: "conn_WaitForStateChange grpc x c st w1 = (b, w2)" by (metis surj_pair)
    have l: "log w1 = log w" "log w2 = log w" using log_state [OF st] log_wait [OF wt] by simp_all
    have ce: "log (snd (ctx_Err rt x w2)) = log w2" by (rule log_ctx [OF prod.collapse [symmetric]])
    show ?case
    proof (cases "st = Ready \<or> \<not> b")
      case True
      with st wt l ce show ?thesis by (subst waitUntilReady.simps) auto
    next
      case False
      then have wt': "conn_WaitForStateChange grpc x c st w1 = (True, w2)" using wt by simp
      have "changes t c w2 < changes t c w"
        using wait_true [OF deadline wt'] state_changes [OF st, of t] by simp
      from less [OF this] False st wt l show ?thesis by (subst waitUntilReady.simps) simp
    qed
  qed
  with assms(1) show ?thesis by auto
qed

lemma Client_New_log:
  "\<exists>res w'. Client_New rt grpc mk x opts w = Some (res, w') \<and>
    ((\<exists>e hs. res = Inl e \<and> log w' = log w @ map Opened hs @ map Closed (rev hs) \<and> length hs \<le> 1) \<or>
     (\<exists>c. res = Inr c \<and> log w' = log w @ [Opened (ConnRes (cl_conn c))] \<and>
        Options_Validate opts = None))"
proof (cases "Options_Validate opts")
  case (Some e)
  then show ?thesis by (auto simp: Client_New_def intro: exI [of _ "[]"])
next
  case valid: None
  let ?cr = "case opt_TLS opts of None \<Rightarrow> InsecureCreds | Some c \<Rightarrow> c"
  obtain n w1 where nc: "grpc_NewClient grpc (opt_Addr opts) ?cr sso_keepalive w = (n, w1)"
    by (metis surj_pair)
  show ?thesis
  proof (cases n)
    case (Inl err)
    with nc valid log_conn [OF nc] show ?thesis by (auto simp: Client_New_def Let_def intro: exI [of _ "[]"])
  next
    case (Inr c)
    obtain now w2 where now: "time_Now rt w1 = (now, w2)" by (metis surj_pair)
    let ?x = "WithTimeout now x (if opt_DialTimeout opts \<le> 0 then defaultDialTimeout else opt_DialTimeout opts)"
    obtain t where deadline: "ctx_deadline ?x = Some t" using WithTimeout_bound by blast
    obtain e w3 where wait: "waitUntilReady rt grpc ?x c (conn_Connect grpc c w2) = Some (e, w3)"
      using waitUntilReady_returns [OF deadline] by blast
    have l3: "log w3 = log w @ [Opened (ConnRes c)]"
      using waitUntilReady_log [OF wait deadline] log_connect log_now [OF now] log_conn [OF nc] Inr by simp
    show ?thesis
    proof (cases e)
      case None
      with nc Inr now wait valid l3 show ?thesis by (auto simp: Client_New_def Let_def)
    next
      case (Some err)
      obtain ce w4 where close: "conn_Close grpc c w3 = (ce, w4)" by (metis surj_pair)
      with Some nc Inr now wait valid have
        "\<exists>e. Client_New rt grpc mk x opts w = Some (Inl e, w4)" by (simp add: Client_New_def Let_def)
      moreover have "log w4 = log w @ map Opened [ConnRes c] @ map Closed (rev [ConnRes c])"
        using log_conn_close [OF close] l3 by simp
      ultimately show ?thesis by (metis One_nat_def length_Cons list.size(3) order_refl)
    qed
  qed
qed

end

end
