(* ===== verification/Go_Float.thy ===== *)
theory Go_Float
  imports Prelude "HOL-Library.Log_Nat"
begin

text \<open>
  Go's \<open>float64\<close> arithmetic: an operation computes the exact result and rounds it to the
  nearest number with a 53-bit significand, ties to even. \<open>fl64\<close> is that rounding on
  rationals, with the exponent left unbounded: the numbers of this program are neither so large
  nor so close to zero that the exponent range of the format matters. The locale
  \<open>float_rounding\<close> states what the rate limiter needs of a rounding.
\<close>

section \<open>Rounding to an integer\<close>

definition round_even :: "rat \<Rightarrow> int" where
  "round_even y =
     (let f = \<lfloor>y\<rfloor>; d = y - of_int f in
      if d < 1 / 2 then f else if 1 / 2 < d then f + 1 else if even f then f else f + 1)"

lemma round_even_bounds: "y - 1 / 2 \<le> of_int (round_even y)" "of_int (round_even y) \<le> y + 1 / 2"
  by (auto simp: round_even_def Let_def) linarith+

lemma round_even_int [simp]: "round_even (of_int n) = n"
  by (simp add: round_even_def)

lemma round_even_mono:
  assumes "x \<le> y"
  shows "round_even x \<le> round_even y"
proof (cases "\<lfloor>x\<rfloor> = \<lfloor>y\<rfloor>")
  case True
  with assms show ?thesis by (auto simp: round_even_def Let_def)
next
  case False
  with floor_mono [OF assms] have "\<lfloor>x\<rfloor> + 1 \<le> \<lfloor>y\<rfloor>" by simp
  moreover have "round_even x \<le> \<lfloor>x\<rfloor> + 1" "\<lfloor>y\<rfloor> \<le> round_even y"
    by (simp_all add: round_even_def Let_def)
  ultimately show ?thesis by linarith
qed

section \<open>The exponent\<close>

definition ilog2 :: "rat \<Rightarrow> int" where
  "ilog2 x =
     (let (p, q) = quotient_of x; k = bitlen p - bitlen q
      in if 2 powi k \<le> x then k else k - 1)"

lemma bitlen_powi: "0 < p \<Longrightarrow> (2 :: rat) powi (bitlen p - 1) \<le> of_int p \<and> (of_int p :: rat) < 2 powi bitlen p"
proof -
  assume p: "0 < p"
  then have b: "2 ^ nat (bitlen p - 1) \<le> p \<and> p < 2 ^ nat (bitlen p)" by (rule bitlen_bounds)
  have n: "0 < bitlen p" using p bitlen_nonneg [of p] b by (cases "bitlen p = 0") auto
  have "(2 :: rat) powi (bitlen p - 1) = of_int (2 ^ nat (bitlen p - 1))"
    "(2 :: rat) powi bitlen p = of_int (2 ^ nat (bitlen p))"
    using n by (simp_all add: power_int_def)
  then show ?thesis using b by (metis of_int_le_iff of_int_less_iff)
qed

lemma ilog2_bounds:
  assumes "0 < x"
  shows "2 powi ilog2 x \<le> x \<and> x < 2 powi (ilog2 x + 1)"
proof -
  obtain p q where pq: "quotient_of x = (p, q)" by (metis surj_pair)
  have q: "0 < q" by (rule quotient_of_denom_pos [OF pq])
  have x: "x = of_int p / of_int q" by (rule quotient_of_div [OF pq])
  with assms q have p: "0 < p" by (simp add: zero_less_divide_iff)
  let ?k = "bitlen p - bitlen q"
  note bp = bitlen_powi [OF p] and bq = bitlen_powi [OF q]
  have up: "x < 2 powi (?k + 1)"
  proof -
    have "x < 2 powi bitlen p / of_int q" using x bp q by (simp add: divide_strict_right_mono)
    also have "\<dots> \<le> 2 powi bitlen p / 2 powi (bitlen q - 1)" using bq q by (intro divide_left_mono) auto
    also have "\<dots> = 2 powi (?k + 1)" by (simp add: power_int_diff [symmetric] algebra_simps)
    finally show ?thesis .
  qed
  have lo: "2 powi (?k - 1) \<le> x"
  proof -
    have "(2 :: rat) powi (?k - 1) = 2 powi (bitlen p - 1) / 2 powi bitlen q"
      by (simp add: power_int_diff [symmetric] algebra_simps)
    also have "\<dots> \<le> of_int p / 2 powi bitlen q" using bp by (simp add: divide_right_mono)
    also have "\<dots> \<le> x" using x bq p q by (auto intro!: divide_left_mono)
    finally show ?thesis .
  qed
  show ?thesis using up lo by (auto simp: ilog2_def pq Let_def not_le)
qed

lemma ilog2_mono: "0 < x \<Longrightarrow> x \<le> y \<Longrightarrow> ilog2 x \<le> ilog2 y"
proof (rule ccontr)
  assume a: "0 < x" "x \<le> y" "\<not> ilog2 x \<le> ilog2 y"
  then have "(2 :: rat) powi (ilog2 y + 1) \<le> 2 powi ilog2 x" by (intro power_int_increasing) auto
  with a ilog2_bounds [of x] ilog2_bounds [of y] show False by auto
qed

section \<open>Rounding to 53 bits\<close>

definition ulp :: "rat \<Rightarrow> rat" where
  "ulp x = 2 powi (ilog2 x - 52)"

definition fl64 :: "rat \<Rightarrow> rat" where
  "fl64 x =
     (if x = 0 then 0
      else if 0 < x then of_int (round_even (x / ulp x)) * ulp x
      else - (of_int (round_even (- x / ulp (- x))) * ulp (- x)))"

lemma ulp_pos [simp]: "0 < ulp x"
  by (simp add: ulp_def)


lemma powi_nat: "0 \<le> k \<Longrightarrow> (2 :: rat) powi k = of_int (2 ^ nat k)"
  by (simp add: power_int_def)

text \<open>The significand of a positive number has 53 bits.\<close>

lemma significand:
  assumes "0 < x"
  shows "2 ^ 52 \<le> x / ulp x \<and> x / ulp x < 2 ^ 53"
proof -
  note b = ilog2_bounds [OF assms]
  have "(2 :: rat) powi ilog2 x = 2 ^ 52 * ulp x"
    by (simp add: ulp_def power_int_diff)
  moreover have "(2 :: rat) powi (ilog2 x + 1) = 2 ^ 53 * ulp x"
    by (simp add: ulp_def power_int_diff power_int_add)
  ultimately show ?thesis
    using b by (simp add: pos_le_divide_eq pos_divide_less_eq)
qed

lemma significand_rounded:
  assumes "0 < x"
  shows "2 ^ 52 \<le> round_even (x / ulp x) \<and> round_even (x / ulp x) \<le> 2 ^ 53"
proof
  have "round_even (of_int (2 ^ 52)) \<le> round_even (x / ulp x)"
    using significand [OF assms] by (intro round_even_mono) simp
  then show "2 ^ 52 \<le> round_even (x / ulp x)" by (simp only: round_even_int)
  have "round_even (x / ulp x) \<le> round_even (of_int (2 ^ 53))"
    using significand [OF assms] by (intro round_even_mono) simp
  then show "round_even (x / ulp x) \<le> 2 ^ 53" by (simp only: round_even_int)
qed

lemma fl64_pos: "0 < x \<Longrightarrow> fl64 x = of_int (round_even (x / ulp x)) * ulp x"
  by (simp add: fl64_def)

lemma fl64_bounds:
  assumes "0 < x"
  shows "2 powi ilog2 x \<le> fl64 x \<and> fl64 x \<le> 2 powi (ilog2 x + 1)"
proof -
  have "of_int (2 ^ 52) * ulp x \<le> fl64 x" "fl64 x \<le> of_int (2 ^ 53) * ulp x"
    using significand_rounded [OF assms]
    by (simp_all only: fl64_pos [OF assms] mult_right_mono of_int_le_iff ulp_pos less_imp_le)
  then show ?thesis by (simp add: ulp_def power_int_diff power_int_add)
qed

lemma fl64_mono:
  assumes "0 \<le> x" and "x \<le> y"
  shows "fl64 x \<le> fl64 y"
proof (cases "x = 0")
  case True
  then show ?thesis
  proof (cases "y = 0")
    case False
    with assms True fl64_bounds [of y] have "0 \<le> fl64 y"
      by (auto intro: order_trans [of 0 "2 powi ilog2 y"])
    with True show ?thesis by (simp add: fl64_def)
  qed simp
next
  case False
  with assms have pos: "0 < x" "0 < y" by auto
  show ?thesis
  proof (cases "ilog2 x = ilog2 y")
    case True
    then have "ulp x = ulp y" by (simp add: ulp_def)
    moreover from this have "round_even (x / ulp x) \<le> round_even (y / ulp y)"
      using assms(2) by (intro round_even_mono) (simp add: divide_right_mono less_imp_le)
    ultimately show ?thesis by (simp add: fl64_pos pos mult_right_mono less_imp_le)
  next
    case False
    with ilog2_mono [OF pos(1) assms(2)] have "(2 :: rat) powi (ilog2 x + 1) \<le> 2 powi ilog2 y"
      by (intro power_int_increasing) auto
    with fl64_bounds [OF pos(1)] fl64_bounds [OF pos(2)] show ?thesis by linarith
  qed
qed

lemma fl64_error:
  assumes "0 \<le> x"
  shows "fl64 x \<le> x * (1 + 1 / 2 ^ 53)"
proof (cases "x = 0")
  case True
  then show ?thesis by (simp add: fl64_def)
next
  case False
  with assms have pos: "0 < x" by simp
  have "of_int (round_even (x / ulp x)) \<le> x / ulp x + 1 / 2" by (rule round_even_bounds)
  also have "\<dots> \<le> x / ulp x * (1 + 1 / 2 ^ 53)" using significand [OF pos] by simp
  finally have "of_int (round_even (x / ulp x)) * ulp x \<le> x / ulp x * (1 + 1 / 2 ^ 53) * ulp x"
    by (rule mult_right_mono) (simp add: less_imp_le)
  then show ?thesis using ulp_pos [of x] by (simp add: fl64_pos [OF pos])
qed

lemma fl64_int:
  assumes "0 \<le> n" and "n \<le> 2 ^ 53"
  shows "fl64 (of_int n) = of_int n"
proof (cases "n = 0 \<or> n = 2 ^ 53")
  case True
  then show ?thesis
  proof
    assume n: "n = 2 ^ 53"
    have "fl64 (2 ^ 53) = 2 ^ 53" by code_simp
    with n show ?thesis by simp
  qed (simp add: fl64_def)
next
  case False
  with assms have pos: "0 < (of_int n :: rat)" and lt: "n < 2 ^ 53" by auto
  let ?k = "52 - ilog2 (of_int n)"
  have "(2 :: rat) powi ilog2 (of_int n) < 2 powi 53"
    using ilog2_bounds [OF pos] lt by (auto simp: power_int_def intro: order.strict_trans1)
  then have k: "0 \<le> ?k"
    using power_int_increasing [of 53 "ilog2 (of_int n)" "2 :: rat"] by (cases "53 \<le> ilog2 (of_int n)") auto
  have "(of_int n :: rat) / ulp (of_int n) = of_int n * 2 powi ?k"
    by (simp add: ulp_def power_int_diff)
  also have "\<dots> = of_int (n * 2 ^ nat ?k)" using powi_nat [OF k] by simp
  finally have "round_even (of_int n / ulp (of_int n)) = n * 2 ^ nat ?k"
    and "of_int (n * 2 ^ nat ?k) * ulp (of_int n) = (of_int n :: rat)"
    using ulp_pos [of "of_int n"] by (simp_all only: round_even_int) (simp add: field_simps)
  then show ?thesis by (simp only: fl64_pos [OF pos])
qed

section \<open>What the rate limiter needs of a rounding\<close>

locale float_rounding =
  fixes fl :: "rat \<Rightarrow> rat" and u :: rat
  assumes u_pos: "0 \<le> u"
    and mono: "0 \<le> x \<Longrightarrow> x \<le> y \<Longrightarrow> fl x \<le> fl y"
    and error: "0 \<le> x \<Longrightarrow> fl x \<le> x * (1 + u)"
    and exact: "0 \<le> n \<Longrightarrow> n \<le> 2 ^ 53 \<Longrightarrow> fl (of_int n) = of_int n"
begin

lemma zero [simp]: "fl 0 = 0"
  using exact [of 0] by simp

lemma nonneg: "0 \<le> x \<Longrightarrow> 0 \<le> fl x"
  using mono [of 0 x] by simp

end

interpretation f64: float_rounding fl64 "1 / 2 ^ 53"
proof unfold_locales
  show "fl64 x \<le> x * (1 + 1 / 2 ^ 53)" if "0 \<le> x" for x by (rule fl64_error [OF that])
qed (simp_all add: fl64_mono fl64_int)

end
