(* ===== verification/Go_Net.thy ===== *)
theory Go_Net
  imports Go_Std
begin

text \<open>
  \<open>net/url.Parse\<close> as far as the repository reads it (whether it fails, the scheme, and
  whether the host is empty), \<open>net.SplitHostPort\<close>, \<open>path.Clean\<close> and the target of
  \<open>http.Redirect\<close>. The validity of an authority, whose rules differ between Go releases, is
  the parameter \<open>authority_ok\<close>.
\<close>

section \<open>\<open>url.Parse\<close>\<close>

definition is_alpha :: "char \<Rightarrow> bool" where
  "is_alpha c = (let n = of_char c :: nat in 97 \<le> n \<and> n \<le> 122 \<or> 65 \<le> n \<and> n \<le> 90)"

definition is_digit :: "char \<Rightarrow> bool" where
  "is_digit c = (let n = of_char c :: nat in 48 \<le> n \<and> n \<le> 57)"

definition is_hex :: "char \<Rightarrow> bool" where
  "is_hex c = (let n = of_char c :: nat in
     48 \<le> n \<and> n \<le> 57 \<or> 97 \<le> n \<and> n \<le> 102 \<or> 65 \<le> n \<and> n \<le> 70)"

definition is_ctl :: "char \<Rightarrow> bool" where
  "is_ctl c = (let n = of_char c :: nat in n < 32 \<or> n = 127)"

text \<open>
  \<open>getScheme\<close>: the loop over the raw URL; \<open>pre\<close> is what it has passed. \<open>None\<close> is the
  error \<open>missing protocol scheme\<close>.
\<close>

fun getScheme_loop :: "string \<Rightarrow> string \<Rightarrow> string \<Rightarrow> (string \<times> string) option" where
  "getScheme_loop raw pre [] = Some ([], raw)"
| "getScheme_loop raw pre (c # cs) =
     (if is_alpha c then getScheme_loop raw (pre @ [c]) cs
      else if is_digit c \<or> c \<in> {CHR ''+'', CHR ''-'', CHR ''.''} then
        (if pre = [] then Some ([], raw) else getScheme_loop raw (pre @ [c]) cs)
      else if c = CHR '':'' then (if pre = [] then None else Some (pre, cs))
      else Some ([], raw))"

definition getScheme :: "string \<Rightarrow> (string \<times> string) option" where
  "getScheme raw = getScheme_loop raw [] raw"

text \<open>Percent-decoding of a path or a fragment fails on a bad escape.\<close>

fun escapes_ok :: "string \<Rightarrow> bool" where
  "escapes_ok [] = True"
| "escapes_ok (c # cs) =
     (if c = CHR ''%'' then
        (case cs of h # l # rest \<Rightarrow> is_hex h \<and> is_hex l \<and> escapes_ok rest | _ \<Rightarrow> False)
      else escapes_ok cs)"

record url_parts =
  Scheme :: string
  HostEmpty :: bool

definition cut_query :: "string \<Rightarrow> string" where
  "cut_query rest =
     (if HasSuffix rest ''?'' \<and> count_list rest (CHR ''?'') = 1 then butlast rest
      else fst (Cut rest (CHR ''?'')))"

definition after_last_at :: "string \<Rightarrow> string" where
  "after_last_at a =
     (case LastIndexByte a (CHR ''@'') of Some i \<Rightarrow> drop (Suc i) a | None \<Rightarrow> a)"

definition parse_hier :: "(string \<Rightarrow> bool) \<Rightarrow> string \<Rightarrow> string \<Rightarrow> url_parts option" where
  "parse_hier authority_ok scheme rest =
     (if (scheme \<noteq> [] \<or> \<not> HasPrefix rest ''///'') \<and> HasPrefix rest ''//'' then
        (let authority_rest = drop 2 rest;
             i = (case IndexByte authority_rest (CHR ''/'') of Some i \<Rightarrow> i | None \<Rightarrow> length authority_rest);
             authority = take i authority_rest;
             path = drop i authority_rest
         in if \<not> authority_ok authority then None
            else if \<not> escapes_ok path then None
            else Some \<lparr>Scheme = scheme, HostEmpty = (after_last_at authority = [])\<rparr>)
      else if \<not> escapes_ok rest then None
      else Some \<lparr>Scheme = scheme, HostEmpty = True\<rparr>)"

text \<open>\<open>parse(rawURL, viaRequest = false)\<close>.\<close>

definition url_parse :: "(string \<Rightarrow> bool) \<Rightarrow> string \<Rightarrow> url_parts option" where
  "url_parse authority_ok raw =
     (if list_ex is_ctl raw then None
      else if raw = ''*'' then Some \<lparr>Scheme = [], HostEmpty = True\<rparr>
      else (case getScheme raw of
              None \<Rightarrow> None
            | Some (scheme0, rest0) \<Rightarrow>
                (let scheme = ToLower scheme0; rest = cut_query rest0 in
                 if \<not> HasPrefix rest ''/'' \<and> scheme \<noteq> [] then
                   Some \<lparr>Scheme = scheme, HostEmpty = True\<rparr>
                 else if \<not> HasPrefix rest ''/'' \<and> CHR '':'' \<in> set (fst (Cut rest (CHR ''/''))) then
                   None
                 else parse_hier authority_ok scheme rest)))"

definition url_Parse :: "(string \<Rightarrow> bool) \<Rightarrow> string \<Rightarrow> url_parts option" where
  "url_Parse authority_ok raw =
     (let (u, frag) = Cut raw (CHR ''#'') in
      case url_parse authority_ok u of
        None \<Rightarrow> None
      | Some url \<Rightarrow> if frag = [] \<or> escapes_ok frag then Some url else None)"

lemma getScheme_loop_Some:
  "getScheme_loop raw pre cs = Some (s, rest) \<Longrightarrow> raw = pre @ cs \<Longrightarrow> s \<noteq> [] \<Longrightarrow> raw = s @ CHR '':'' # rest"
  by (induction raw pre cs rule: getScheme_loop.induct) (auto split: if_splits)

lemma getScheme_Some: "getScheme raw = Some (s, rest) \<Longrightarrow> s \<noteq> [] \<Longrightarrow> raw = s @ CHR '':'' # rest"
  by (simp add: getScheme_def getScheme_loop_Some)

lemma parse_hier_Scheme: "parse_hier ok s rest = Some u \<Longrightarrow> Scheme u = s"
  by (auto simp: parse_hier_def Let_def split: if_splits)

lemma url_parse_Scheme:
  assumes "url_parse ok raw = Some u" and "Scheme u \<noteq> []"
  shows "\<exists>s rest. raw = s @ CHR '':'' # rest \<and> Scheme u = ToLower s \<and> list_all (\<lambda>c. \<not> is_ctl c) raw"
proof -
  from assms obtain s rest where
    g: "getScheme raw = Some (s, rest)" and S: "Scheme u = ToLower s" and c: "\<not> list_ex is_ctl raw"
    by (auto simp: url_parse_def Let_def split: if_splits option.splits dest!: parse_hier_Scheme)
  from S assms(2) have "s \<noteq> []" by (auto simp: ToLower_def)
  with g S c show ?thesis
    by (intro exI [of _ s] exI [of _ rest]) (auto dest!: getScheme_Some simp: list_all_iff list_ex_iff)
qed

text \<open>A URL with a scheme starts with it, up to the case of the letters, and a colon.\<close>

lemma url_Parse_Scheme:
  assumes "url_Parse ok raw = Some u" and "Scheme u \<noteq> []"
  shows "\<exists>s rest. raw = s @ CHR '':'' # rest \<and> ToLower s = Scheme u"
proof -
  from assms(1) have "url_parse ok (fst (Cut raw (CHR ''#''))) = Some u"
    by (auto simp: url_Parse_def split: prod.splits option.splits if_splits)
  from url_parse_Scheme [OF this assms(2)] obtain s rest where
    "fst (Cut raw (CHR ''#'')) = s @ CHR '':'' # rest" "Scheme u = ToLower s" by blast
  moreover have "\<exists>t. raw = fst (Cut raw (CHR ''#'')) @ t"
    by (auto simp: Cut_def split: option.splits) (metis append_take_drop_id)
  ultimately show ?thesis by force
qed

section \<open>\<open>net.SplitHostPort\<close>\<close>

datatype addr_error = MissingPort | TooManyColons | MissingBracket | UnexpectedOpen | UnexpectedClose

definition split_check :: "string \<Rightarrow> string \<Rightarrow> nat \<Rightarrow> nat \<Rightarrow> nat \<Rightarrow> addr_error + (string \<times> string)" where
  "split_check hostport host i j k =
     (if CHR ''['' \<in> set (drop j hostport) then Inl UnexpectedOpen
      else if CHR '']'' \<in> set (drop k hostport) then Inl UnexpectedClose
      else Inr (host, drop (Suc i) hostport))"

definition SplitHostPort :: "string \<Rightarrow> addr_error + (string \<times> string)" where
  "SplitHostPort hostport =
     (case LastIndexByte hostport (CHR '':'') of
        None \<Rightarrow> Inl MissingPort
      | Some i \<Rightarrow>
          (if HasPrefix hostport ''['' then
             (case IndexByte hostport (CHR '']'') of
                None \<Rightarrow> Inl MissingBracket
              | Some e \<Rightarrow>
                  (if Suc e = length hostport then Inl MissingPort
                   else if Suc e = i then
                     split_check hostport (take (e - 1) (drop 1 hostport)) i 1 (Suc e)
                   else if hostport ! Suc e = CHR '':'' then Inl TooManyColons
                   else Inl MissingPort))
           else if CHR '':'' \<in> set (take i hostport) then Inl TooManyColons
           else split_check hostport (take i hostport) i 0 0))"

section \<open>\<open>path.Clean\<close> and the target of \<open>http.Redirect\<close>\<close>

fun split_on :: "char \<Rightarrow> string \<Rightarrow> string list" where
  "split_on c [] = [[]]"
| "split_on c (x # xs) =
     (if x = c then [] # split_on c xs
      else (case split_on c xs of p # ps \<Rightarrow> (x # p) # ps | [] \<Rightarrow> [[x]]))"

fun join_with :: "string \<Rightarrow> string list \<Rightarrow> string" where
  "join_with sep [] = []"
| "join_with sep [p] = p"
| "join_with sep (p # ps) = p @ sep @ join_with sep ps"

text \<open>One element of the path against the reversed stack of the kept ones.\<close>

definition clean_step :: "bool \<Rightarrow> string \<Rightarrow> string list \<Rightarrow> string list" where
  "clean_step rooted p st =
     (if p = [] \<or> p = ''.'' then st
      else if p = ''..'' then
        (case st of
           q # qs \<Rightarrow> if q = ''..'' then p # st else qs
         | [] \<Rightarrow> if rooted then [] else [p])
      else p # st)"

definition path_Clean :: "string \<Rightarrow> string" where
  "path_Clean path =
     (if path = [] then ''.''
      else (let rooted = HasPrefix path ''/'';
                kept = rev (fold (clean_step rooted) (split_on (CHR ''/'') path) []);
                body = join_with ''/'' kept
            in if rooted then CHR ''/'' # body else if body = [] then ''.'' else body))"

definition dir_of :: "string \<Rightarrow> string" where
  "dir_of path =
     (case LastIndexByte path (CHR ''/'') of Some i \<Rightarrow> take (Suc i) path | None \<Rightarrow> [])"

definition absolutise :: "string \<Rightarrow> string \<Rightarrow> string" where
  "absolutise oldpath url =
     (let url1 = (if url = [] \<or> \<not> HasPrefix url ''/'' then dir_of oldpath @ url else url);
          i = (case IndexByte url1 (CHR ''?'') of Some i \<Rightarrow> i | None \<Rightarrow> length url1);
          body = take i url1; query = drop i url1;
          cleaned = path_Clean body
      in (if HasSuffix body ''/'' \<and> \<not> HasSuffix cleaned ''/'' then cleaned @ ''/'' else cleaned)
         @ query)"

definition hex_digit :: "nat \<Rightarrow> char" where
  "hex_digit n = (if n < 10 then char_of (48 + n) else char_of (87 + n))"

definition hexEscapeNonASCII :: "string \<Rightarrow> string" where
  "hexEscapeNonASCII s =
     concat (map (\<lambda>c. let n = of_char c :: nat in
       if 128 \<le> n then [CHR ''%'', hex_digit (n div 16), hex_digit (n mod 16)] else [c]) s)"

text \<open>The value \<open>http.Redirect\<close> stores in the header \<open>Location\<close>.\<close>

definition redirect_location :: "(string \<Rightarrow> bool) \<Rightarrow> string \<Rightarrow> string \<Rightarrow> string" where
  "redirect_location authority_ok req_path url =
     hexEscapeNonASCII
       (case url_Parse authority_ok url of
          Some u \<Rightarrow>
            (if Scheme u = [] \<and> HostEmpty u
             then absolutise (if req_path = [] then ''/'' else req_path) url
             else url)
        | None \<Rightarrow> url)"

definition ascii :: "string \<Rightarrow> bool" where
  "ascii s \<longleftrightarrow> list_all (\<lambda>c. (of_char c :: nat) < 128) s"

lemma hexEscape_append [simp]:
  "hexEscapeNonASCII (s @ t) = hexEscapeNonASCII s @ hexEscapeNonASCII t"
  by (simp add: hexEscapeNonASCII_def)

lemma hexEscape_ascii: "ascii s \<Longrightarrow> hexEscapeNonASCII s = s"
  by (induction s) (auto simp: hexEscapeNonASCII_def ascii_def Let_def)

lemma redirect_absolute:
  assumes "url_Parse ok url = Some u" and "Scheme u \<noteq> []"
  shows "redirect_location ok path url = hexEscapeNonASCII url"
  using assms by (simp add: redirect_location_def)


section \<open>Web addresses\<close>

text \<open>A text that starts with \<open>http:\<close> or \<open>https:\<close>, in any mix of cases.\<close>

definition http_url :: "string \<Rightarrow> bool" where
  "http_url t \<longleftrightarrow> (\<exists>s rest. t = s @ CHR '':'' # rest \<and> ToLower s \<in> {''http'', ''https''})"

lemma lower_alpha: "lower_char c \<in> set ''https'' \<Longrightarrow> is_alpha c \<and> (of_char c :: nat) < 127 \<and> 32 < (of_char c :: nat)"
  by (cases "65 \<le> (of_char c :: nat) \<and> (of_char c :: nat) \<le> 90")
    (auto simp: lower_char_def is_alpha_def Let_def)

lemma http_scheme_alpha:
  assumes "ToLower s \<in> {''http'', ''https''}"
  shows "s \<noteq> [] \<and> list_all is_alpha s \<and> list_all (\<lambda>c. \<not> space_byte c) s \<and> ascii s"
proof -
  have "list_all (\<lambda>c. lower_char c \<in> set ''https'') s"
  proof -
    have "set (ToLower s) \<subseteq> set ''https''" using assms by auto
    then show ?thesis by (auto simp: ToLower_def list_all_iff)
  qed
  then have "list_all (\<lambda>c. is_alpha c \<and> (of_char c :: nat) < 127 \<and> 32 < (of_char c :: nat)) s"
    by (rule list.pred_mono_strong) (rule lower_alpha)
  moreover have "s \<noteq> []" using assms by (auto simp: ToLower_def)
  ultimately show ?thesis by (auto simp: list_all_iff space_byte_def ascii_def)
qed

lemma http_url_TrimSpace: "http_url t \<Longrightarrow> http_url (TrimSpace t)"
proof -
  assume "http_url t"
  then obtain s rest where t: "t = s @ CHR '':'' # rest" and s: "ToLower s \<in> {''http'', ''https''}"
    by (auto simp: http_url_def)
  from http_scheme_alpha [OF s] obtain d s' where "s = d # s'" "\<not> space_byte d" by (cases s) auto
  moreover have "\<not> space_byte (CHR '':'')" by (simp add: space_byte_def)
  ultimately obtain b' where "TrimSpace t = s @ CHR '':'' # b'"
    using TrimSpace_keeps_prefix [of d "CHR '':''" s' rest] t by auto
  with s show ?thesis by (auto simp: http_url_def)
qed

lemma getScheme_alpha:
  "list_all is_alpha s \<Longrightarrow> pre @ s \<noteq> [] \<Longrightarrow> getScheme_loop raw pre (s @ CHR '':'' # rest) = Some (pre @ s, rest)"
proof (induction s arbitrary: pre)
  case Nil
  then show ?case by (simp add: is_alpha_def is_digit_def)
next
  case (Cons c s)
  then show ?case using Cons.IH [of "pre @ [c]"] by simp
qed

lemma http_url_parse:
  assumes "http_url t" and "url_Parse ok t = Some u"
  shows "Scheme u \<in> {''http'', ''https''}"
proof -
  from assms(1) obtain s rest where t: "t = s @ CHR '':'' # rest"
    and s: "ToLower s \<in> {''http'', ''https''}" by (auto simp: http_url_def)
  note al = http_scheme_alpha [OF s]
  obtain r where c: "fst (Cut t (CHR ''#'')) = s @ CHR '':'' # r"
  proof (cases "CHR ''#'' \<in> set rest")
    case True
    then obtain p q where "rest = p @ CHR ''#'' # q" "CHR ''#'' \<notin> set p"
      by (auto dest: split_list_first)
    moreover from al have "CHR ''#'' \<notin> set s" by (auto simp: list_all_iff is_alpha_def)
    ultimately show ?thesis
      using that [of p] Cut_append [of "CHR ''#''" "s @ CHR '':'' # p" q] t by simp
  next
    case False
    moreover from al have "CHR ''#'' \<notin> set s" by (auto simp: list_all_iff is_alpha_def)
    ultimately show ?thesis using that [of rest] t by (simp add: Cut_absent)
  qed
  have g: "getScheme (s @ CHR '':'' # r) = Some (s, r)"
    using al getScheme_alpha [of s "[]" "s @ CHR '':'' # r" r] by (simp add: getScheme_def)
  from assms(2) c have "url_parse ok (s @ CHR '':'' # r) = Some u"
    by (auto simp: url_Parse_def split: prod.splits option.splits if_splits)
  with g have "Scheme u = ToLower s"
    by (cases s) (auto simp: url_parse_def Let_def split: if_splits dest: parse_hier_Scheme)
  with s show ?thesis by simp
qed

lemma http_url_redirect:
  assumes "http_url t"
  shows "redirect_location ok path t = hexEscapeNonASCII t \<and> http_url (redirect_location ok path t)"
proof -
  have loc: "redirect_location ok path t = hexEscapeNonASCII t"
    using http_url_parse [OF assms, of ok]
    by (auto simp: redirect_location_def split: option.splits)
  from assms obtain s rest where t: "t = s @ CHR '':'' # rest"
    and s: "ToLower s \<in> {''http'', ''https''}" by (auto simp: http_url_def)
  from http_scheme_alpha [OF s] have "hexEscapeNonASCII s = s" by (simp add: hexEscape_ascii)
  moreover have "hexEscapeNonASCII (CHR '':'' # rest) = CHR '':'' # hexEscapeNonASCII rest"
    by (simp add: hexEscapeNonASCII_def)
  ultimately show ?thesis using loc t s by (auto simp: http_url_def)
qed

end
