(* ===== verification/Response.thy ===== *)
theory Response
  imports Go_Net Go_Context
begin

text \<open>
  HTTP requests and responses as the handlers see them, and
  \<open>internal/transport/http/response\<close>: the JSON envelope, the validation messages and the
  mapping from errors to responses. \<open>render.Status\<close> and \<open>render.JSON\<close> write the status and
  the value; a response here is what has been written.
\<close>

section \<open>Requests and responses\<close>

text \<open>
  \<open>req_Path\<close> and \<open>req_RawPath\<close> are the two forms of the path in \<open>r.URL\<close>: decoded, and as it was
  encoded in the request where that cannot be told from the decoded form (empty otherwise).
\<close>

record request =
  req_Method :: string
  req_Path :: string
  req_RawPath :: string
  req_RemoteAddr :: string
  req_Header :: "(string \<times> string) list"
  req_Body :: string
  req_Params :: "(string \<times> string) list"
  req_Context :: ctx

text \<open>\<open>r.Header.Get\<close> and \<open>chi.URLParam\<close>: the empty string when absent.\<close>

definition Header_Get :: "request \<Rightarrow> string \<Rightarrow> string" where
  "Header_Get r k = (case map_of (req_Header r) k of Some v \<Rightarrow> v | None \<Rightarrow> [])"

definition URLParam :: "request \<Rightarrow> string \<Rightarrow> string" where
  "URLParam r k = (case map_of (req_Params r) k of Some v \<Rightarrow> v | None \<Rightarrow> [])"

record ValidationErrorDetail =
  vd_Field :: string
  vd_Message :: string

record Response =
  resp_Status :: string
  resp_Error :: string
  resp_Details :: "ValidationErrorDetail list"

datatype payload =
    PResponse Response
  | PSave Response string
  | PTokens Response string string

datatype body = NoBody | TextBody string | Json payload | RedirectBody string

record http_response =
  hr_status :: nat
  hr_location :: "string option"
  hr_body :: body

abbreviation (input) "StatusOK \<equiv> 200 :: nat"
abbreviation (input) "StatusCreated \<equiv> 201 :: nat"
abbreviation (input) "StatusNoContent \<equiv> 204 :: nat"
abbreviation (input) "StatusFound \<equiv> 302 :: nat"
abbreviation (input) "StatusBadRequest \<equiv> 400 :: nat"
abbreviation (input) "StatusUnauthorized \<equiv> 401 :: nat"
abbreviation (input) "StatusNotFound \<equiv> 404 :: nat"
abbreviation (input) "StatusConflict \<equiv> 409 :: nat"
abbreviation (input) "StatusTooManyRequests \<equiv> 429 :: nat"
abbreviation (input) "StatusInternalServerError \<equiv> 500 :: nat"
abbreviation (input) "StatusServiceUnavailable \<equiv> 503 :: nat"

definition write_header :: "nat \<Rightarrow> http_response" where
  "write_header code = \<lparr>hr_status = code, hr_location = None, hr_body = NoBody\<rparr>"

definition write_text :: "nat \<Rightarrow> string \<Rightarrow> http_response" where
  "write_text code t = \<lparr>hr_status = code, hr_location = None, hr_body = TextBody t\<rparr>"

definition http_Redirect :: "(string \<Rightarrow> bool) \<Rightarrow> request \<Rightarrow> string \<Rightarrow> nat \<Rightarrow> http_response" where
  "http_Redirect authority_ok r url code =
     \<lparr>hr_status = code, hr_location = Some (redirect_location authority_ok (req_Path r) url),
      hr_body = (if req_Method r = ''GET'' then RedirectBody url else NoBody)\<rparr>"

section \<open>\<open>response.go\<close>\<close>

definition response_Ok :: Response where
  "response_Ok = \<lparr>resp_Status = ''OK'', resp_Error = [], resp_Details = []\<rparr>"

definition response_Error :: "string \<Rightarrow> Response" where
  "response_Error msg = \<lparr>resp_Status = ''Error'', resp_Error = msg, resp_Details = []\<rparr>"

record FieldError =
  fe_Field :: string
  fe_Tag :: string
  fe_Param :: string

definition validationMessage :: "FieldError \<Rightarrow> string" where
  "validationMessage err =
     (if fe_Tag err = ''required'' then ''is required''
      else if fe_Tag err = ''url'' then ''must be a valid URL''
      else if fe_Tag err = ''url_scheme'' then ''must use http or https''
      else if fe_Tag err = ''min'' then ''must be at least '' @ fe_Param err @ '' characters''
      else if fe_Tag err = ''max'' then ''must be at most '' @ fe_Param err @ '' characters''
      else if fe_Tag err = ''alias'' then
        ''may contain only letters, numbers, '' @ [CHR 0x27, CHR ''-'', CHR 0x27] @ '' and '' @
        [CHR 0x27, CHR ''_'', CHR 0x27]
      else ''is invalid'')"

definition ValidationError :: "FieldError list \<Rightarrow> Response" where
  "ValidationError errs =
     \<lparr>resp_Status = ''Error'', resp_Error = ''validation failed'',
      resp_Details = map (\<lambda>err. \<lparr>vd_Field = ToLower (fe_Field err), vd_Message = validationMessage err\<rparr>) errs\<rparr>"

definition Respond :: "nat \<Rightarrow> payload \<Rightarrow> http_response" where
  "Respond code v = \<lparr>hr_status = code, hr_location = None, hr_body = Json v\<rparr>"

section \<open>\<open>errors.go\<close>\<close>

record ErrCase =
  case_Target :: sentinel
  case_Status :: nat
  case_Msg :: string

definition response_Case :: "sentinel \<Rightarrow> nat \<Rightarrow> string \<Rightarrow> ErrCase" where
  "response_Case target status msg = \<lparr>case_Target = target, case_Status = status, case_Msg = msg\<rparr>"

datatype log_level = LDebug | LInfo | LWarn | LError

text \<open>The levels of \<open>slog\<close> are integers, and ordered as such.\<close>

fun slog_Level :: "log_level \<Rightarrow> int" where
  "slog_Level LDebug = - 4"
| "slog_Level LInfo = 0"
| "slog_Level LWarn = 4"
| "slog_Level LError = 8"

lemma slog_Level_inject: "slog_Level l = slog_Level m \<longleftrightarrow> l = m"
  by (cases l; cases m) simp_all

instantiation log_level :: linorder
begin

definition less_eq_log_level :: "log_level \<Rightarrow> log_level \<Rightarrow> bool" where
  "less_eq_log_level l m \<longleftrightarrow> slog_Level l \<le> slog_Level m"

definition less_log_level :: "log_level \<Rightarrow> log_level \<Rightarrow> bool" where
  "less_log_level l m \<longleftrightarrow> slog_Level l < slog_Level m"

instance
  by standard (auto simp: less_eq_log_level_def less_log_level_def slog_Level_inject)

end

lemma log_level_le [simp]: "LDebug \<le> l" "LInfo \<le> LInfo" "LInfo \<le> LWarn" "LInfo \<le> LError" "\<not> LInfo \<le> LDebug"
  by (cases l) (simp_all add: less_eq_log_level_def)

text \<open>The level and message logged, and the response written.\<close>

fun RespondError ::
  "go_error \<Rightarrow> nat \<Rightarrow> string \<Rightarrow> ErrCase list \<Rightarrow> (log_level \<times> string) \<times> http_response" where
  "RespondError err fallbackStatus fallbackMsg [] =
     ((LError, fallbackMsg), Respond fallbackStatus (PResponse (response_Error fallbackMsg)))"
| "RespondError err fallbackStatus fallbackMsg (c # cases) =
     (if errors_Is err (case_Target c) then
        ((if StatusInternalServerError \<le> case_Status c then LError else LDebug, case_Msg c),
         Respond (case_Status c) (PResponse (response_Error (case_Msg c))))
      else RespondError err fallbackStatus fallbackMsg cases)"

lemma Respond_simps [simp]:
  "hr_status (Respond code v) = code" "hr_location (Respond code v) = None"
  "hr_body (Respond code v) = Json v"
  by (simp_all add: Respond_def)

lemma write_header_simps [simp]:
  "hr_status (write_header code) = code" "hr_location (write_header code) = None"
  "hr_body (write_header code) = NoBody"
  by (simp_all add: write_header_def)

lemma RespondError_location [simp]: "hr_location (snd (RespondError e st m cs)) = None"
  by (induction e st m cs rule: RespondError.induct) auto

lemma RespondError_miss:
  "\<forall>c \<in> set cs. \<not> errors_Is e (case_Target c) \<Longrightarrow>
   RespondError e st m cs = ((LError, m), Respond st (PResponse (response_Error m)))"
  by (induction e st m cs rule: RespondError.induct) auto

lemma RespondError_hit:
  "\<forall>c \<in> set cs1. \<not> errors_Is e (case_Target c) \<Longrightarrow> errors_Is e (case_Target c) \<Longrightarrow>
   snd (RespondError e st m (cs1 @ c # cs2)) = Respond (case_Status c) (PResponse (response_Error (case_Msg c)))"
  by (induction e st m cs1 rule: RespondError.induct) auto

section \<open>Properties\<close>

text \<open>
  What a client learns from an error: the response is the one of the first case whose
  sentinel the error wraps, or the fallback when it wraps none of them. The body depends on
  the case only, so two errors that wrap the same sentinel, or both none of the listed ones,
  give the same response: no text of the error reaches the client. The fallback is always
  logged at level error.
\<close>

lemma RespondError_selects:
  "(\<forall>cs1 c cs2. cases = cs1 @ c # cs2 \<longrightarrow> (\<forall>d \<in> set cs1. \<not> errors_Is e (case_Target d)) \<longrightarrow>
      errors_Is e (case_Target c) \<longrightarrow>
      snd (RespondError e st msg cases) =
        Respond (case_Status c) (PResponse (response_Error (case_Msg c)))) \<and>
   ((\<forall>d \<in> set cases. \<not> errors_Is e (case_Target d)) \<longrightarrow>
      RespondError e st msg cases = ((LError, msg), Respond st (PResponse (response_Error msg)))) \<and>
   ((\<forall>d \<in> set cases. errors_Is e (case_Target d) = errors_Is e' (case_Target d)) \<longrightarrow>
      RespondError e st msg cases = RespondError e' st msg cases)"
proof (intro conjI allI impI)
  fix cs1 c cs2
  assume "cases = cs1 @ c # cs2" "\<forall>d \<in> set cs1. \<not> errors_Is e (case_Target d)"
    "errors_Is e (case_Target c)"
  then show "snd (RespondError e st msg cases) =
      Respond (case_Status c) (PResponse (response_Error (case_Msg c)))"
    by (simp add: RespondError_hit)
next
  assume "\<forall>d \<in> set cases. \<not> errors_Is e (case_Target d)"
  then show "RespondError e st msg cases = ((LError, msg), Respond st (PResponse (response_Error msg)))"
    by (rule RespondError_miss)
next
  assume "\<forall>d \<in> set cases. errors_Is e (case_Target d) = errors_Is e' (case_Target d)"
  then show "RespondError e st msg cases = RespondError e' st msg cases"
    by (induction cases) auto
qed

end
