(* ===== verification/Random_Alias.thy ===== *)
theory Random_Alias
  imports Go_Errors "HOL-Library.Word"
begin

text \<open>
  The alias generator of \<open>pkg/random/random.go\<close>: rejection sampling of an entropy reader.
  The reader is the parameter \<open>entropyReader\<close>; \<open>io.ReadFull\<close> and the sampling loop run
  until they have enough bytes, so both are partial functions and \<open>Generate\<close> reports a loop
  that never ends as \<open>Diverges\<close>.
\<close>

type_synonym byte = "8 word"

text \<open>
  One call of \<open>Read\<close> with a buffer of \<open>n\<close> bytes: the bytes stored and the error, if any.
\<close>

type_synonym 'w reader = "nat \<Rightarrow> ('w, byte list \<times> go_error option) io"

section \<open>\<open>io.ReadFull\<close>\<close>

partial_function (option) read_at_least ::
  "'w reader \<Rightarrow> nat \<Rightarrow> byte list \<Rightarrow> 'w \<Rightarrow> ((go_error + byte list) \<times> 'w) option" where
  "read_at_least rd n buf w =
     (if length buf < n then
        (case rd (n - length buf) w of ((chunk, err), w') \<Rightarrow>
           (case err of
              None \<Rightarrow> read_at_least rd n (buf @ take (n - length buf) chunk) w'
            | Some e \<Rightarrow>
                (let buf' = buf @ take (n - length buf) chunk in
                 if n \<le> length buf' then Some (Inr buf', w')
                 else if buf' \<noteq> [] \<and> e = Sentinel IoEOF
                      then Some (Inl (Sentinel IoErrUnexpectedEOF), w')
                 else Some (Inl e, w'))))
      else Some (Inr buf, w))"

definition ReadFull :: "'w reader \<Rightarrow> nat \<Rightarrow> 'w \<Rightarrow> ((go_error + byte list) \<times> 'w) option" where
  "ReadFull rd n w = read_at_least rd n [] w"

section \<open>The generator\<close>

definition charset :: string where
  "charset = ''ABCDEFGHIJKLMNOPQRSTUVWXYZabcdefghijklmnopqrstuvwxyz0123456789''"

definition maxRandomByte :: nat where
  "maxRandomByte = 256 - (256 mod length charset)"

record 'w Generator =
  gen_size :: int
  entropyReader :: "'w reader"

type_synonym 'w gen_option = "'w Generator \<Rightarrow> 'w Generator"

definition WithReader :: "'w reader \<Rightarrow> 'w gen_option" where
  "WithReader r g = g\<lparr>entropyReader := r\<rparr>"

definition random_New :: "'w reader \<Rightarrow> int \<Rightarrow> 'w gen_option list \<Rightarrow> 'w Generator" where
  "random_New rand_Reader sz opts =
     fold (\<lambda>opt g. opt g) opts \<lparr>gen_size = sz, entropyReader = rand_Reader\<rparr>"

text \<open>
  The inner loop over one block of random bytes: \<open>acc\<close> is \<open>result[:i]\<close>. A byte at or
  above \<open>maxRandomByte\<close> is skipped, and the loop breaks when the result is full.
\<close>

fun scan_block :: "nat \<Rightarrow> string \<Rightarrow> byte list \<Rightarrow> string" where
  "scan_block sz acc [] = acc"
| "scan_block sz acc (b # bs) =
     (if unat b \<ge> maxRandomByte then scan_block sz acc bs
      else (let acc' = acc @ [charset ! (unat b mod length charset)]
            in if length acc' = sz then acc' else scan_block sz acc' bs))"

partial_function (option) generate_loop ::
  "'w reader \<Rightarrow> nat \<Rightarrow> string \<Rightarrow> 'w \<Rightarrow> (string outcome \<times> 'w) option" where
  "generate_loop rd sz acc w =
     (if length acc < sz then
        (case ReadFull rd sz w of
           None \<Rightarrow> None
         | Some (r, w') \<Rightarrow>
             (case r of
                Inl e \<Rightarrow> Some (Err (Wrap ''generate random bytes: '' e []), w')
              | Inr random \<Rightarrow> generate_loop rd sz (scan_block sz acc random) w'))
      else Some (Ok acc, w))"

text \<open>\<open>make([]byte, sz)\<close> panics on a negative size.\<close>

definition Generate :: "'w Generator \<Rightarrow> ('w, string outcome) io" where
  "Generate g w =
     (if gen_size g < 0 then (Panic ''makeslice: len out of range'', w)
      else (case generate_loop (entropyReader g) (nat (gen_size g)) [] w of
              None \<Rightarrow> (Diverges, w)
            | Some r \<Rightarrow> r))"

section \<open>The reference: a filter over the bytes read\<close>

definition accepted :: "byte \<Rightarrow> bool" where
  "accepted b \<longleftrightarrow> unat b < maxRandomByte"

definition sample :: "byte \<Rightarrow> char" where
  "sample b = charset ! (unat b mod length charset)"

definition sample_all :: "byte list \<Rightarrow> string" where
  "sample_all bs = map sample (filter accepted bs)"

text \<open>The world and the bytes after \<open>k\<close> full blocks, when every read succeeds.\<close>

fun read_blocks :: "'w reader \<Rightarrow> nat \<Rightarrow> nat \<Rightarrow> 'w \<Rightarrow> (byte list \<times> 'w) option" where
  "read_blocks rd sz 0 w = Some ([], w)"
| "read_blocks rd sz (Suc k) w =
     (case ReadFull rd sz w of
        Some (Inr bs, w') \<Rightarrow>
          (case read_blocks rd sz k w' of
             Some (rest, w'') \<Rightarrow> Some (bs @ rest, w'')
           | None \<Rightarrow> None)
      | _ \<Rightarrow> None)"

lemma length_charset [simp]: "length charset = 62"
  by (simp add: charset_def)

lemma maxRandomByte_eq [simp]: "maxRandomByte = 248"
  by (simp add: maxRandomByte_def)

lemma sample_all_simps [simp]:
  "sample_all [] = []"
  "sample_all (b # bs) = (if accepted b then sample b # sample_all bs else sample_all bs)"
  "sample_all (bs @ cs) = sample_all bs @ sample_all cs"
  by (simp_all add: sample_all_def)

lemma sample_in_charset [simp]: "sample b \<in> set charset"
  by (simp add: sample_def)

lemma sample_all_charset: "set (sample_all bs) \<subseteq> set charset"
  by (auto simp: sample_all_def)

lemma scan_block_sample:
  "length acc < sz \<Longrightarrow> scan_block sz acc bs = take sz (acc @ sample_all bs)"
proof (induction bs arbitrary: acc)
  case Nil
  then show ?case by simp
next
  case (Cons b bs)
  show ?case
  proof (cases "accepted b")
    case False
    with Cons show ?thesis by (simp add: accepted_def)
  next
    case True
    then have step: "scan_block sz acc (b # bs) =
        (if length (acc @ [sample b]) = sz then acc @ [sample b]
         else scan_block sz (acc @ [sample b]) bs)"
      by (simp add: accepted_def sample_def Let_def)
    show ?thesis
      unfolding step using True Cons.prems Cons.IH [of "acc @ [sample b]"]
      by auto
  qed
qed


section \<open>The sampling loop against the reference\<close>

lemma generate_loop_full: "sz \<le> length acc \<Longrightarrow> generate_loop rd sz acc w = Some (Ok acc, w)"
  by (subst generate_loop.simps) simp

lemma generate_loop_step:
  "length acc < sz \<Longrightarrow> ReadFull rd sz w = Some (Inr bs, w') \<Longrightarrow>
   generate_loop rd sz acc w = generate_loop rd sz (take sz (acc @ sample_all bs)) w'"
  by (subst generate_loop.simps) (simp add: scan_block_sample)

lemma generate_loop_sound:
  assumes "generate_loop rd sz acc w = Some (r, w')" and "r = Ok s" and "length acc \<le> sz"
  shows "\<exists>k bs. read_blocks rd sz k w = Some (bs, w') \<and> s = take sz (acc @ sample_all bs) \<and>
           length s = sz"
proof -
  define P where "P = (\<lambda>(rd::'a reader) sz acc w (rw::string outcome \<times> 'a).
      \<forall>s. fst rw = Ok s \<longrightarrow> length acc \<le> sz \<longrightarrow>
        (\<exists>k bs. read_blocks rd sz k w = Some (bs, snd rw) \<and> s = take sz (acc @ sample_all bs) \<and>
           length s = sz))"
  have "P rd sz acc w (r, w')"
  proof (rule generate_loop.raw_induct [where P = P, OF _ assms(1)])
    fix loop :: "'a reader \<Rightarrow> nat \<Rightarrow> string \<Rightarrow> 'a \<Rightarrow> (string outcome \<times> 'a) option"
      and rd sz acc w rw
    assume IH: "\<And>rd sz acc w rw. loop rd sz acc w = Some rw \<Longrightarrow> P rd sz acc w rw"
      and eq: "(if length acc < sz then
        (case ReadFull rd sz w of None \<Rightarrow> None
         | Some (r, w') \<Rightarrow>
             (case r of Inl e \<Rightarrow> Some (Err (Wrap ''generate random bytes: '' e []), w')
              | Inr random \<Rightarrow> loop rd sz (scan_block sz acc random) w'))
        else Some (Ok acc, w)) = Some rw"
    show "P rd sz acc w rw"
    proof (cases "length acc < sz")
      case False
      with eq show ?thesis
        unfolding P_def by (auto intro!: exI [of _ 0])
    next
      case True
      show ?thesis
        unfolding P_def
      proof (intro allI impI)
        fix s assume ok: "fst rw = Ok s" and "length acc \<le> sz"
        from eq True ok obtain bs w1 where
          rf: "ReadFull rd sz w = Some (Inr bs, w1)" and
          lp: "loop rd sz (take sz (acc @ sample_all bs)) w1 = Some rw"
          by (cases "ReadFull rd sz w")
            (auto simp: scan_block_sample [OF True] split: prod.splits sum.splits)
        from IH [OF lp] ok obtain k cs where
          "read_blocks rd sz k w1 = Some (cs, snd rw)"
          "s = take sz (take sz (acc @ sample_all bs) @ sample_all cs)" "length s = sz"
          unfolding P_def by auto
        moreover from this(2) have "s = take sz (acc @ sample_all (bs @ cs))"
          by (simp only: take_append_take sample_all_simps append_assoc)
        moreover have "read_blocks rd sz (Suc k) w = Some (bs @ cs, snd rw)"
          using rf calculation(1) by simp
        ultimately show "\<exists>k bs. read_blocks rd sz k w = Some (bs, snd rw) \<and>
            s = take sz (acc @ sample_all bs) \<and> length s = sz"
          by blast
      qed
    qed
  qed
  with assms(2,3) show ?thesis by (simp add: P_def)
qed

lemma generate_loop_complete:
  assumes "read_blocks rd sz k w = Some (bs, v)" and "sz \<le> length (acc @ sample_all bs)"
    and "length acc \<le> sz"
  shows "\<exists>w'. generate_loop rd sz acc w = Some (Ok (take sz (acc @ sample_all bs)), w')"
  using assms
proof (induction k arbitrary: w bs acc)
  case 0
  then show ?case by (simp add: generate_loop_full)
next
  case (Suc k)
  show ?case
  proof (cases "length acc < sz")
    case False
    with Suc.prems show ?thesis by (simp add: generate_loop_full)
  next
    case True
    from Suc.prems(1) obtain b1 w1 b2 where
      r: "ReadFull rd sz w = Some (Inr b1, w1)" "read_blocks rd sz k w1 = Some (b2, v)"
      and bs: "bs = b1 @ b2"
      by (auto split: option.splits prod.splits sum.splits)
    let ?acc = "take sz (acc @ sample_all b1)"
    have eq: "take sz (?acc @ sample_all b2) = take sz (acc @ sample_all bs)"
      unfolding bs by (simp only: take_append_take sample_all_simps append_assoc)
    have "sz \<le> length (?acc @ sample_all b2)"
      using Suc.prems(2) by (simp add: bs)
    then have "\<exists>w'. generate_loop rd sz ?acc w1 = Some (Ok (take sz (?acc @ sample_all b2)), w')"
      using Suc.IH [OF r(2), of ?acc] by simp
    then show ?thesis
      unfolding eq generate_loop_step [OF True r(1)] .
  qed
qed


section \<open>What generating leaves alone\<close>

text \<open>
  If reads keep \<open>f\<close> of the world and fail only with errors in \<open>E\<close>, so does the whole
  loop; \<open>io.ErrUnexpectedEOF\<close> is the one error \<open>io.ReadFull\<close> adds.
\<close>

definition reads_frame :: "'w reader \<Rightarrow> ('w \<Rightarrow> 'b) \<Rightarrow> (go_error \<Rightarrow> bool) \<Rightarrow> bool" where
  "reads_frame rd f E \<longleftrightarrow>
     E (Sentinel IoErrUnexpectedEOF) \<and>
     (\<forall>n w bs e w'. rd n w = ((bs, e), w') \<longrightarrow> f w' = f w \<and> (\<forall>x. e = Some x \<longrightarrow> E x))"

lemma reads_frameD:
  "reads_frame rd f E \<Longrightarrow> rd n w = ((bs, e), w') \<Longrightarrow> f w' = f w"
  "reads_frame rd f E \<Longrightarrow> rd n w = ((bs, Some x), w') \<Longrightarrow> E x"
  "reads_frame rd f E \<Longrightarrow> E (Sentinel IoErrUnexpectedEOF)"
  by (auto simp: reads_frame_def)

lemma read_at_least_frame:
  assumes fr: "reads_frame rd f E" and ret: "read_at_least rd n buf w = Some (r, w')"
  shows "f w' = f w \<and> (\<forall>e. r = Inl e \<longrightarrow> E e)"
proof -
  define P where "P = (\<lambda>rd (n::nat) (buf::byte list) w (rw::(go_error + byte list) \<times> 'a).
      reads_frame rd f E \<longrightarrow> f (snd rw) = f w \<and> (\<forall>e. fst rw = Inl e \<longrightarrow> E e))"
  have "P rd n buf w (r, w')"
  proof (rule read_at_least.raw_induct [where P = P, OF _ ret])
    fix loop :: "'a reader \<Rightarrow> nat \<Rightarrow> byte list \<Rightarrow> 'a \<Rightarrow> ((go_error + byte list) \<times> 'a) option"
      and rd n buf w rw
    assume IH: "\<And>rd n buf w rw. loop rd n buf w = Some rw \<Longrightarrow> P rd n buf w rw"
      and eq: "(if length buf < n then
        (case rd (n - length buf) w of ((chunk, err), w') \<Rightarrow>
           (case err of
              None \<Rightarrow> loop rd n (buf @ take (n - length buf) chunk) w'
            | Some e \<Rightarrow>
                (let buf' = buf @ take (n - length buf) chunk in
                 if n \<le> length buf' then Some (Inr buf', w')
                 else if buf' \<noteq> [] \<and> e = Sentinel IoEOF
                      then Some (Inl (Sentinel IoErrUnexpectedEOF), w')
                 else Some (Inl e, w'))))
        else Some (Inr buf, w)) = Some rw"
    obtain chunk err w1 where rd: "rd (n - length buf) w = ((chunk, err), w1)" by (metis surj_pair)
    show "P rd n buf w rw"
    proof (cases "length buf < n")
      case False
      with eq show ?thesis by (auto simp: P_def)
    next
      case True
      show ?thesis
      proof (cases err)
        case None
        with eq rd True have "loop rd n (buf @ take (n - length buf) chunk) w1 = Some rw" by simp
        from IH [OF this] rd show ?thesis by (auto simp: P_def dest: reads_frameD)
      next
        case (Some e)
        with eq rd True have "snd rw = w1" "fst rw = Inl x \<longrightarrow> x = Sentinel IoErrUnexpectedEOF \<or> x = e" for x
          by (auto simp: Let_def split: if_splits)
        with rd Some show ?thesis by (auto simp: P_def dest: reads_frameD)
      qed
    qed
  qed
  with fr show ?thesis by (simp add: P_def)
qed

lemma generate_loop_frame:
  assumes fr: "reads_frame rd f E" and ret: "generate_loop rd sz acc w = Some (r, w')"
  shows "f w' = f w \<and> (\<forall>e. r = Err e \<longrightarrow> (\<exists>e'. E e' \<and> e = Wrap ''generate random bytes: '' e' []))"
proof -
  define P where "P = (\<lambda>rd (sz::nat) (acc::string) w (rw::string outcome \<times> 'a).
      reads_frame rd f E \<longrightarrow> f (snd rw) = f w \<and>
        (\<forall>e. fst rw = Err e \<longrightarrow> (\<exists>e'. E e' \<and> e = Wrap ''generate random bytes: '' e' [])))"
  have "P rd sz acc w (r, w')"
  proof (rule generate_loop.raw_induct [where P = P, OF _ ret])
    fix loop :: "'a reader \<Rightarrow> nat \<Rightarrow> string \<Rightarrow> 'a \<Rightarrow> (string outcome \<times> 'a) option"
      and rd sz acc w rw
    assume IH: "\<And>rd sz acc w rw. loop rd sz acc w = Some rw \<Longrightarrow> P rd sz acc w rw"
      and eq: "(if length acc < sz then
        (case ReadFull rd sz w of None \<Rightarrow> None
         | Some (r, w') \<Rightarrow>
             (case r of Inl e \<Rightarrow> Some (Err (Wrap ''generate random bytes: '' e []), w')
              | Inr random \<Rightarrow> loop rd sz (scan_block sz acc random) w'))
        else Some (Ok acc, w)) = Some rw"
    show "P rd sz acc w rw"
    proof (cases "length acc < sz")
      case False
      with eq show ?thesis by (auto simp: P_def)
    next
      case True
      with eq obtain q w1 where rf: "read_at_least rd sz [] w = Some (q, w1)"
        by (cases "ReadFull rd sz w") (auto simp: ReadFull_def)
      show ?thesis
      proof (cases q)
        case (Inl e)
        with eq True rf have "rw = (Err (Wrap ''generate random bytes: '' e []), w1)"
          by (simp add: ReadFull_def)
        with Inl read_at_least_frame [OF _ rf] show ?thesis by (auto simp: P_def)
      next
        case (Inr bs)
        with eq True rf have "loop rd sz (scan_block sz acc bs) w1 = Some rw"
          by (simp add: ReadFull_def)
        from IH [OF this] read_at_least_frame [OF _ rf, of f E] show ?thesis by (simp add: P_def)
      qed
    qed
  qed
  with fr show ?thesis by (simp add: P_def)
qed

lemma Generate_frame:
  assumes "reads_frame (entropyReader g) f E" and "Generate g w = (r, w')"
  shows "f w' = f w \<and> (\<forall>e. r = Err e \<longrightarrow> (\<exists>e'. E e' \<and> e = Wrap ''generate random bytes: '' e' []))"
proof (cases "0 \<le> gen_size g")
  case False
  with assms(2) show ?thesis by (auto simp: Generate_def)
next
  case True
  with assms(2) show ?thesis
    by (cases "generate_loop (entropyReader g) (nat (gen_size g)) [] w")
      (auto simp: Generate_def dest: generate_loop_frame [OF assms(1)])
qed

section \<open>The interface the service relies on\<close>

text \<open>
  A source of aliases: whatever it returns without error is over the alphabet \<open>\<Sigma>\<close> and has
  the configured length.
\<close>

locale alias_source =
  fixes generate :: "('w, string outcome) io"
    and len :: nat
    and \<Sigma> :: "char set"
  assumes generated_length: "generate w = (Ok a, w') \<Longrightarrow> length a = len"
    and generated_alphabet: "generate w = (Ok a, w') \<Longrightarrow> set a \<subseteq> \<Sigma>"
begin

lemma generated_all: "generate w = (Ok a, w') \<Longrightarrow> \<Sigma> \<subseteq> Collect P \<Longrightarrow> list_all P a"
  by (drule generated_alphabet) (auto simp: list_all_iff)

lemma generated_nonempty: "generate w = (Ok a, w') \<Longrightarrow> 0 < len \<Longrightarrow> a \<noteq> []"
  using generated_length by force

end

lemma Generate_Ok_loop:
  "Generate g w = (Ok s, w') \<longleftrightarrow>
   0 \<le> gen_size g \<and> generate_loop (entropyReader g) (nat (gen_size g)) [] w = Some (Ok s, w')"
  by (auto simp: Generate_def split: option.splits if_splits)

lemma Generate_reads:
  assumes "Generate g w = (Ok s, w')"
  shows "\<exists>k bs. read_blocks (entropyReader g) (nat (gen_size g)) k w = Some (bs, w') \<and>
           s = take (nat (gen_size g)) (sample_all bs) \<and> length s = nat (gen_size g)"
proof -
  from assms have "generate_loop (entropyReader g) (nat (gen_size g)) [] w = Some (Ok s, w')"
    by (simp add: Generate_Ok_loop)
  from generate_loop_sound [OF this refl] show ?thesis by simp
qed

interpretation gen: alias_source "Generate g" "nat (gen_size g)" "set charset" for g
proof unfold_locales
  fix w a w'
  assume "Generate g w = (Ok a, w')"
  from Generate_reads [OF this] obtain k bs where
    "a = take (nat (gen_size g)) (sample_all bs)" "length a = nat (gen_size g)" by blast
  then show "length a = nat (gen_size g)" "set a \<subseteq> set charset"
    using sample_all_charset [of bs] by (auto dest: in_set_takeD)
qed

section \<open>Properties\<close>

text \<open>A reader over a list of bytes, which reports the end of the list: used by the witnesses.\<close>

definition list_reader :: "byte list reader" where
  "list_reader n w = ((take n w, if w = [] then Some (Sentinel IoEOF) else None), drop n w)"

lemmas generate_eval =
  Generate_def generate_loop.simps ReadFull_def read_at_least.simps list_reader_def
  sample_all_def accepted_def sample_def charset_def

text \<open>
  C14. Whatever alias the generator returns is the first \<open>size\<close> samples of the bytes it read:
  bytes of 248 and above are dropped, the others index the charset modulo 62, and the result has
  exactly the configured length over the 62 characters of the charset. No other byte of the
  entropy source influences the alias.
\<close>

theorem Generate_sound:
  assumes "Generate g w = (Ok s, w')"
  shows "(\<exists>k bs. read_blocks (entropyReader g) (nat (gen_size g)) k w = Some (bs, w') \<and>
            s = take (nat (gen_size g)) (sample_all bs)) \<and>
         int (length s) = gen_size g \<and> set s \<subseteq> set charset"
proof -
  from assms have "0 \<le> gen_size g" by (simp add: Generate_Ok_loop)
  with Generate_reads [OF assms] gen.generated_alphabet [OF assms] show ?thesis by auto
qed

theorem Generate_sound_witness:
  "Generate \<lparr>gen_size = 3, entropyReader = list_reader\<rparr> [0, 250, 63, 61, 1, 2] = (Ok ''AB9'', []) \<and>
   int (length ''AB9'') = 3 \<and> set ''AB9'' \<subseteq> set charset"
proof -
  have run: "Generate \<lparr>gen_size = 3, entropyReader = list_reader\<rparr> [0, 250, 63, 61, 1, 2] =
      (Ok ''AB9'', [])"
    by (simp add: generate_eval)
  then show ?thesis using Generate_sound [OF run] by simp
qed

text \<open>
  C15. The rejection loop returns: as soon as some number of full blocks of the entropy source
  holds enough bytes below 248, \<open>Generate\<close> terminates without error with the alias the
  reference computes from those blocks.
\<close>

theorem Generate_returns:
  assumes "0 \<le> gen_size g"
    and "read_blocks (entropyReader g) (nat (gen_size g)) k w = Some (bs, v)"
    and "nat (gen_size g) \<le> length (filter accepted bs)"
  shows "\<exists>w'. Generate g w = (Ok (take (nat (gen_size g)) (sample_all bs)), w')"
proof -
  have "length (sample_all bs) = length (filter accepted bs)" by (simp add: sample_all_def)
  with generate_loop_complete [OF assms(2), of "[]"] assms(3)
  show ?thesis by (simp add: Generate_Ok_loop assms(1))
qed

theorem Generate_returns_witness:
  "\<exists>w'. Generate \<lparr>gen_size = 2, entropyReader = list_reader\<rparr> [255, 3, 9, 9] = (Ok ''DJ'', w')"
proof -
  have "read_blocks list_reader 2 2 [255, 3, 9, 9] = Some ([255, 3, 9, 9], [])"
    by (simp add: numeral_2_eq_2 generate_eval)
  moreover have "2 \<le> length (filter accepted [255, 3, 9, 9])"
    by (simp add: accepted_def)
  moreover have "take 2 (sample_all [255, 3, 9, 9]) = ''DJ''"
    by (simp add: generate_eval)
  ultimately show ?thesis
    using Generate_returns [of "\<lparr>gen_size = 2, entropyReader = list_reader\<rparr>" 2 "[255, 3, 9, 9]"
        "[255, 3, 9, 9]" "[]"] by simp
qed

lemma distinct_charset: "distinct charset"
  by (simp add: charset_def)

lemma unat_byte_of_nat [simp]: "n < 256 \<Longrightarrow> unat (of_nat n :: byte) = n"
  by (simp add: unsigned_of_nat take_bit_nat_eq_self)

lemma residues_below_248:
  fixes n i :: nat
  assumes "i < 62"
  shows "n < 248 \<and> n mod 62 = i \<longleftrightarrow> n = i \<or> n = i + 62 \<or> n = i + 124 \<or> n = i + 186"
proof
  assume n: "n < 248 \<and> n mod 62 = i"
  then have "n div 62 < 4" by (simp add: less_mult_imp_div_less)
  then consider "n div 62 = 0" | "n div 62 = 1" | "n div 62 = 2" | "n div 62 = 3" by linarith
  then show "n = i \<or> n = i + 62 \<or> n = i + 124 \<or> n = i + 186"
    using n mult_div_mod_eq [of 62 n] by cases auto
next
  assume "n = i \<or> n = i + 62 \<or> n = i + 124 \<or> n = i + 186"
  moreover have "(i + 62 * k) mod 62 = i" for k using assms by simp
  from this [of 1] this [of 2] this [of 3] have
    "(i + 62) mod 62 = i" "(i + 124) mod 62 = i" "(i + 186) mod 62 = i" by simp_all
  ultimately show "n < 248 \<and> n mod 62 = i" using assms by auto
qed

lemma sample_preimage:
  assumes "i < 62"
  shows "{b. accepted b \<and> sample b = charset ! i} = of_nat ` {i, i + 62, i + 124, i + 186}"
proof -
  have idx: "sample b = charset ! i \<longleftrightarrow> unat b mod 62 = i" for b
    using assms nth_eq_iff_index_eq [OF distinct_charset] by (simp add: sample_def)
  have "accepted b \<and> sample b = charset ! i \<longleftrightarrow> unat b \<in> {i, i + 62, i + 124, i + 186}" for b
    unfolding idx accepted_def maxRandomByte_eq residues_below_248 [OF assms] by simp
  moreover have "unat b \<in> A \<longleftrightarrow> b \<in> of_nat ` A" if "A \<subseteq> {..<256}" for b :: byte and A
  proof
    assume "unat b \<in> A"
    then have "of_nat (unat b) \<in> (of_nat ` A :: byte set)" by (rule imageI)
    then show "b \<in> of_nat ` A" by simp
  next
    assume "b \<in> of_nat ` A"
    with that show "unat b \<in> A" by auto
  qed
  moreover have "{i, i + 62, i + 124, i + 186} \<subseteq> {..<256}" using assms by simp
  ultimately show ?thesis by blast
qed

text \<open>
  C16. Sampling is unbiased: every character of the charset is the sample of exactly four of
  the accepted bytes, so a uniform byte that is accepted yields a uniform character.
\<close>

theorem sample_unbiased:
  assumes "c \<in> set charset"
  shows "card {b. accepted b \<and> sample b = c} = 4"
proof -
  from assms obtain i where i: "i < 62" "c = charset ! i" by (auto simp: in_set_conv_nth)
  have "inj_on (of_nat :: nat \<Rightarrow> byte) {i, i + 62, i + 124, i + 186}"
    by (rule inj_on_inverseI [where g = unat], rule unat_byte_of_nat) (use i(1) in auto)
  then show ?thesis using i by (simp add: sample_preimage card_image)
qed

theorem sample_unbiased_witness: "card {b. accepted b \<and> sample b = CHR ''A''} = 4"
  using sample_unbiased [of "CHR ''A''"] by (simp add: charset_def)

end
