(* ===== verification/Validation.thy ===== *)
theory Validation
  imports Response Random_Alias
begin

text \<open>
  \<open>internal/transport/http/validation\<close> and the struct tags of \<open>handlers.SaveRequest\<close>. The
  engine of \<open>go-playground/validator\<close> is a parameter (\<open>validator_lib\<close>) with its documented
  behaviour as the locale \<open>validator_engine\<close>; the functions this repository registers for the
  tags \<open>alias\<close> and \<open>url_scheme\<close> are definitions.
\<close>

section \<open>The library\<close>

text \<open>A tag with its parameter, and a struct as its fields with their values and tags.\<close>

type_synonym tag = "string \<times> string"
type_synonym rules = "(string \<times> string \<times> tag list) list"

datatype validation_result = Valid | Invalid "FieldError list" | Failed go_error

record 'v validator_lib =
  validator_New :: 'v
  RegisterValidation :: "'v \<Rightarrow> string \<Rightarrow> (string \<Rightarrow> bool) \<Rightarrow> go_error + 'v"
  validate_Struct :: "'v \<Rightarrow> rules \<Rightarrow> validation_result"

section \<open>\<open>alias.go\<close> and \<open>scheme.go\<close>\<close>

definition alias_char :: "char \<Rightarrow> bool" where
  "alias_char c \<longleftrightarrow> is_alpha c \<or> is_digit c \<or> c = CHR ''_'' \<or> c = CHR ''-''"

text \<open>\<open>^[a-zA-Z0-9_-]+$\<close>\<close>

definition aliasRegexp_MatchString :: "string \<Rightarrow> bool" where
  "aliasRegexp_MatchString s \<longleftrightarrow> s \<noteq> [] \<and> list_all alias_char s"

definition allowedSchemes :: "string list" where
  "allowedSchemes = [''http'', ''https'']"

definition url_scheme_valid :: "(string \<Rightarrow> bool) \<Rightarrow> string \<Rightarrow> bool" where
  "url_scheme_valid authority_ok s =
     (case url_Parse authority_ok s of None \<Rightarrow> False | Some u \<Rightarrow> Scheme u \<in> set allowedSchemes)"

definition registerURLScheme ::
  "(string \<Rightarrow> bool) \<Rightarrow> 'v validator_lib \<Rightarrow> 'v \<Rightarrow> go_error + 'v" where
  "registerURLScheme authority_ok lib v =
     RegisterValidation lib v ''url_scheme'' (url_scheme_valid authority_ok)"

definition validation_New :: "(string \<Rightarrow> bool) \<Rightarrow> 'v validator_lib \<Rightarrow> go_error + 'v" where
  "validation_New authority_ok lib =
     (case RegisterValidation lib (validator_New lib) ''alias'' aliasRegexp_MatchString of
        Inl err \<Rightarrow> Inl err
      | Inr v \<Rightarrow>
          (case registerURLScheme authority_ok lib v of
             Inl err \<Rightarrow> Inl err
           | Inr v' \<Rightarrow> Inr v'))"

section \<open>\<open>SaveRequest\<close>\<close>

record SaveRequest =
  sr_URL :: string
  sr_Alias :: string

definition SaveRequest_rules :: "SaveRequest \<Rightarrow> rules" where
  "SaveRequest_rules req =
     [(''URL'', sr_URL req, [(''required'', []), (''url'', []), (''url_scheme'', [])]),
      (''Alias'', sr_Alias req, [(''omitempty'', []), (''min'', ''4''), (''max'', ''20''), (''alias'', [])])]"

section \<open>What the engine promises\<close>

text \<open>
  Tags are checked from left to right, \<open>omitempty\<close> ends the check of an empty field, a
  registered function decides its own tag. \<open>builtin\<close> is what the library's own tags accept;
  of them the repository relies on \<open>required\<close>, and on \<open>min\<close> and \<open>max\<close> counting
  the characters of a text.
\<close>

fun tags_ok :: "(string \<rightharpoonup> (string \<Rightarrow> bool)) \<Rightarrow> (tag \<Rightarrow> string \<Rightarrow> bool) \<Rightarrow> string \<Rightarrow> tag list \<Rightarrow> bool" where
  "tags_ok custom builtin val [] = True"
| "tags_ok custom builtin val (t # ts) =
     (if fst t = ''omitempty'' then val = [] \<or> tags_ok custom builtin val ts
      else (case custom (fst t) of Some f \<Rightarrow> f val | None \<Rightarrow> builtin t val) \<and>
           tags_ok custom builtin val ts)"

definition rules_ok :: "(string \<rightharpoonup> (string \<Rightarrow> bool)) \<Rightarrow> (tag \<Rightarrow> string \<Rightarrow> bool) \<Rightarrow> rules \<Rightarrow> bool" where
  "rules_ok custom builtin rs = list_all (\<lambda>(f, val, ts). tags_ok custom builtin val ts) rs"

locale validator_engine =
  fixes lib :: "'v validator_lib"
    and custom :: "'v \<Rightarrow> string \<rightharpoonup> (string \<Rightarrow> bool)"
    and builtin :: "tag \<Rightarrow> string \<Rightarrow> bool"
  assumes new_custom: "custom (validator_New lib) = Map.empty"
    and register: "RegisterValidation lib v t f = Inr v' \<Longrightarrow> custom v' = (custom v)(t \<mapsto> f)"
    and struct_valid: "validate_Struct lib v rs = Valid \<longleftrightarrow> rules_ok (custom v) builtin rs"
    and required: "builtin (''required'', []) val \<longleftrightarrow> val \<noteq> []"
    and min_chars: "ascii val \<Longrightarrow> builtin (''min'', show_nat n) val \<longleftrightarrow> n \<le> length val"
    and max_chars: "ascii val \<Longrightarrow> builtin (''max'', show_nat n) val \<longleftrightarrow> length val \<le> n"

lemma alias_ascii: "aliasRegexp_MatchString s \<Longrightarrow> ascii s"
  by (auto simp: aliasRegexp_MatchString_def alias_char_def is_alpha_def is_digit_def ascii_def
      list_all_iff Let_def)

lemma alias_trimmed: "aliasRegexp_MatchString s \<Longrightarrow> TrimSpace s = s"
  by (rule TrimSpace_printable)
    (auto simp: aliasRegexp_MatchString_def alias_char_def is_alpha_def is_digit_def space_byte_def
      list_all_iff Let_def)

lemma show_4_20: "''4'' = show_nat 4" "''20'' = show_nat 20"
  by code_simp+

context validator_engine
begin

lemma New_custom:
  "validation_New ok lib = Inr v \<Longrightarrow>
   custom v = [''alias'' \<mapsto> aliasRegexp_MatchString, ''url_scheme'' \<mapsto> url_scheme_valid ok]"
  by (auto simp: validation_New_def registerURLScheme_def new_custom split: sum.splits dest!: register)

text \<open>The requests \<open>Save\<close> lets through, exactly.\<close>

lemma SaveRequest_valid:
  assumes "validation_New ok lib = Inr v"
  shows "validate_Struct lib v (SaveRequest_rules req) = Valid \<longleftrightarrow>
    sr_URL req \<noteq> [] \<and> builtin (''url'', []) (sr_URL req) \<and> url_scheme_valid ok (sr_URL req) \<and>
    (sr_Alias req = [] \<or> 4 \<le> length (sr_Alias req) \<and> length (sr_Alias req) \<le> 20 \<and>
       aliasRegexp_MatchString (sr_Alias req))"
proof -
  have "builtin (''min'', ''4'') a \<and> builtin (''max'', ''20'') a \<and> aliasRegexp_MatchString a \<longleftrightarrow>
      4 \<le> length a \<and> length a \<le> 20 \<and> aliasRegexp_MatchString a" for a
    using min_chars [of a 4] max_chars [of a 20] alias_ascii [of a] by (auto simp: show_4_20)
  then show ?thesis
    by (auto simp: struct_valid rules_ok_def SaveRequest_rules_def New_custom [OF assms] required)
qed

end

lemma url_scheme_http: "url_scheme_valid ok t \<Longrightarrow> http_url t"
  by (auto simp: url_scheme_valid_def allowedSchemes_def http_url_def split: option.splits
      dest!: url_Parse_Scheme)

section \<open>An executable engine\<close>

text \<open>
  The engine the witnesses run: it reports the first failing tag of each field. Its tag
  \<open>url\<close> asks for a scheme and a host, as the library documents.
\<close>

definition eng_builtin :: "tag \<Rightarrow> string \<Rightarrow> bool" where
  "eng_builtin t val =
     (if fst t = ''required'' then val \<noteq> []
      else if fst t = ''url'' then
        (case url_Parse (\<lambda>_. True) val of Some u \<Rightarrow> Scheme u \<noteq> [] \<and> \<not> HostEmpty u | None \<Rightarrow> False)
      else if fst t = ''min'' then list_ex (\<lambda>n. show_nat n = snd t) [0..<Suc (length val)]
      else if fst t = ''max'' then \<not> list_ex (\<lambda>n. show_nat n = snd t) [0..<length val]
      else False)"

fun first_failing :: "(string \<rightharpoonup> (string \<Rightarrow> bool)) \<Rightarrow> string \<Rightarrow> string \<Rightarrow> tag list \<Rightarrow> FieldError list" where
  "first_failing custom f val [] = []"
| "first_failing custom f val (t # ts) =
     (if fst t = ''omitempty'' then (if val = [] then [] else first_failing custom f val ts)
      else if (case custom (fst t) of Some g \<Rightarrow> g val | None \<Rightarrow> eng_builtin t val)
      then first_failing custom f val ts
      else [\<lparr>fe_Field = f, fe_Tag = fst t, fe_Param = snd t\<rparr>])"

definition eng_Struct :: "(string \<rightharpoonup> (string \<Rightarrow> bool)) \<Rightarrow> rules \<Rightarrow> validation_result" where
  "eng_Struct custom rs =
     (let errs = concat (map (\<lambda>(f, val, ts). first_failing custom f val ts) rs)
      in if errs = [] then Valid else Invalid errs)"

definition engine :: "(string \<rightharpoonup> (string \<Rightarrow> bool)) validator_lib" where
  "engine = \<lparr>validator_New = Map.empty, RegisterValidation = (\<lambda>v t f. Inr (v(t \<mapsto> f))),
     validate_Struct = eng_Struct\<rparr>"


lemma engine_simps [simp]:
  "validator_New engine = Map.empty" "RegisterValidation engine v t f = Inr (v(t \<mapsto> f))"
  "validate_Struct engine = eng_Struct"
  by (simp_all add: engine_def)

lemma first_failing_ok: "first_failing custom f val ts = [] \<longleftrightarrow> tags_ok custom eng_builtin val ts"
  by (induction custom f val ts rule: first_failing.induct) (simp split: option.split)+

interpretation eng: validator_engine engine "\<lambda>v. v" eng_builtin
proof (unfold_locales, goal_cases)
  case (3 v rs) show ?case
    by (auto simp: eng_Struct_def rules_ok_def list_all_iff first_failing_ok Let_def split: prod.splits)
next
  case (5 val n) show ?case by (auto simp: eng_builtin_def list_ex_iff atLeastLessThan_iff)
next
  case (6 val n) show ?case by (auto simp: eng_builtin_def list_ex_iff atLeastLessThan_iff not_less)
qed (simp_all add: eng_builtin_def)


section \<open>Properties\<close>

text \<open>
  C23. The scheme rule: a text passes \<open>url_scheme\<close> exactly when it parses as a URL and starts
  with \<open>http:\<close> or \<open>https:\<close> in some mix of cases. No \<open>javascript:\<close>, \<open>data:\<close>
  or \<open>file:\<close> address passes, and no leading space or control character can hide another
  scheme.
\<close>

theorem url_scheme_exact:
  "url_scheme_valid authority_ok t \<longleftrightarrow> url_Parse authority_ok t \<noteq> None \<and> http_url t"
proof
  assume "url_scheme_valid authority_ok t"
  then show "url_Parse authority_ok t \<noteq> None \<and> http_url t"
    using url_scheme_http [of authority_ok t] by (auto simp: url_scheme_valid_def split: option.splits)
next
  assume "url_Parse authority_ok t \<noteq> None \<and> http_url t"
  then show "url_scheme_valid authority_ok t"
    by (auto simp: url_scheme_valid_def allowedSchemes_def dest: http_url_parse)
qed

text \<open>
  C22. The requests that pass validation are exactly those with a url that is not empty, well
  formed for the validator's \<open>url\<close> tag and passes the scheme rule, and with either no alias or
  one of 4 to 20 characters from the letters, digits, underscore and hyphen. For those the
  trimming of the service changes no alias and keeps the scheme.
\<close>

theorem SaveRequest_accepts:
  assumes "validator_engine lib custom builtin" and "validation_New ok lib = Inr v"
  shows "(validate_Struct lib v (SaveRequest_rules req) = Valid \<longleftrightarrow>
            sr_URL req \<noteq> [] \<and> builtin (''url'', []) (sr_URL req) \<and> url_scheme_valid ok (sr_URL req) \<and>
            (sr_Alias req = [] \<or> 4 \<le> length (sr_Alias req) \<and> length (sr_Alias req) \<le> 20 \<and>
               list_all alias_char (sr_Alias req))) \<and>
         (validate_Struct lib v (SaveRequest_rules req) = Valid \<longrightarrow>
            TrimSpace (sr_Alias req) = sr_Alias req \<and> http_url (TrimSpace (sr_URL req)))"
proof -
  note valid = validator_engine.SaveRequest_valid [OF assms, of req]
  show ?thesis unfolding valid
    by (auto simp: aliasRegexp_MatchString_def alias_trimmed http_url_TrimSpace url_scheme_http)
qed

definition go_request :: SaveRequest where
  "go_request = \<lparr>sr_URL = ''https://go.dev'', sr_Alias = ''godev''\<rparr>"

definition engine_v :: "string \<rightharpoonup> (string \<Rightarrow> bool)" where
  "engine_v = [''alias'' \<mapsto> aliasRegexp_MatchString, ''url_scheme'' \<mapsto> url_scheme_valid (\<lambda>_. True)]"

lemma engine_New: "validation_New (\<lambda>_. True) engine = Inr engine_v"
  by (simp add: validation_New_def registerURLScheme_def engine_v_def)

lemma go_request_rules:
  "eng_builtin (''url'', []) ''https://go.dev'' \<and> url_scheme_valid (\<lambda>_. True) ''https://go.dev'' \<and>
   list_all alias_char ''godev''"
  by code_simp

theorem SaveRequest_accepts_witness:
  "validate_Struct engine engine_v (SaveRequest_rules go_request) = Valid \<and>
   validate_Struct engine engine_v (SaveRequest_rules (go_request\<lparr>sr_Alias := ''go''\<rparr>)) \<noteq> Valid \<and>
   http_url (TrimSpace (sr_URL go_request))"
  using SaveRequest_accepts [OF eng.validator_engine_axioms engine_New, of go_request]
    SaveRequest_accepts [OF eng.validator_engine_axioms engine_New, of "go_request\<lparr>sr_Alias := ''go''\<rparr>"]
    go_request_rules
  by (simp add: go_request_def)

text \<open>
  C24. Generated and chosen aliases: the generator returns only characters of the alphabet that a
  chosen alias has, as many as are configured. If a client that could save a url without an alias
  chose a generated alias for it, the request would be accepted exactly when the configured length
  is between 4 and 20 (or 0, for the empty alias counts as none). Nothing in the program checks
  that length, so with 3 or 21 the service hands out aliases that it refuses when a client asks
  for them.
\<close>

theorem generated_alias_accepted:
  assumes "validator_engine lib custom builtin" and "validation_New ok lib = Inr v"
    and "validate_Struct lib v (SaveRequest_rules (req\<lparr>sr_Alias := []\<rparr>)) = Valid"
    and "Generate g w = (Ok a, w')"
  shows "list_all alias_char a \<and> int (length a) = gen_size g \<and>
    (validate_Struct lib v (SaveRequest_rules (req\<lparr>sr_Alias := a\<rparr>)) = Valid \<longleftrightarrow>
       gen_size g = 0 \<or> 4 \<le> gen_size g \<and> gen_size g \<le> 20)"
proof -
  have "set charset \<subseteq> Collect alias_char"
    by (simp add: charset_def alias_char_def is_alpha_def is_digit_def)
  from gen.generated_all [OF assms(4) this] have chars: "list_all alias_char a" .
  have size: "int (length a) = gen_size g"
    using gen.generated_length [OF assms(4)] assms(4) by (simp add: Generate_Ok_loop)
  note valid = validator_engine.SaveRequest_valid [OF assms(1,2)]
  from chars size assms(3) show ?thesis
    unfolding valid by (auto simp: aliasRegexp_MatchString_def simp flip: size)
qed

theorem generated_alias_accepted_witness:
  "validate_Struct engine engine_v (SaveRequest_rules (go_request\<lparr>sr_Alias := ''AB9Z''\<rparr>)) = Valid \<and>
   fst (Generate \<lparr>gen_size = 4, entropyReader = list_reader\<rparr> [0, 1, 61, 25]) = Ok ''AB9Z'' \<and>
   validate_Struct engine engine_v (SaveRequest_rules (go_request\<lparr>sr_Alias := ''AB9''\<rparr>)) \<noteq> Valid \<and>
   fst (Generate \<lparr>gen_size = 3, entropyReader = list_reader\<rparr> [0, 1, 61]) = Ok ''AB9''"
proof -
  have four: "Generate \<lparr>gen_size = 4, entropyReader = list_reader\<rparr> [0, 1, 61, 25] = (Ok ''AB9Z'', [])"
    and three: "Generate \<lparr>gen_size = 3, entropyReader = list_reader\<rparr> [0, 1, 61] = (Ok ''AB9'', [])"
    by (simp_all add: generate_eval)
  have valid: "validate_Struct engine engine_v (SaveRequest_rules (go_request\<lparr>sr_Alias := []\<rparr>)) = Valid"
    using go_request_rules by (simp add: eng.SaveRequest_valid [OF engine_New, simplified] go_request_def)
  note accepted = generated_alias_accepted [OF eng.validator_engine_axioms engine_New valid]
  from accepted [OF four] accepted [OF three] four three show ?thesis by simp
qed

end
