(* ===== verification/Service.thy ===== *)
theory Service
  imports Storage_Spec Random_Alias
begin

text \<open>
  \<open>internal/service/url/service.go\<close>: the URL service over a \<open>URLRepository\<close> and an
  \<open>AliasGenerator\<close>. \<open>save_attempts\<close> is the retry loop of \<open>saveGeneratedAlias\<close>, counted
  down from \<open>MaxRetries\<close>. Logging is left out.
\<close>

section \<open>The service\<close>

record Config =
  MaxRetries :: int

definition Config_validate :: "Config \<Rightarrow> go_error option" where
  "Config_validate c =
     (if MaxRetries c \<le> 0
      then Some (Wrap [] (Sentinel ErrInvalidConfig)
             ('': max_retries must be positive, got '' @ show_int (MaxRetries c)))
      else None)"

type_synonym 'w URLRepository = "'w Storage"

type_synonym 'w AliasGenerator = "('w, string outcome) io"

record 'w Service =
  srv_repository :: "'w URLRepository"
  srv_generator :: "'w AliasGenerator"
  srv_cfg :: Config

definition Service_New ::
  "'w URLRepository \<Rightarrow> 'w AliasGenerator \<Rightarrow> Config \<Rightarrow> go_error + 'w Service" where
  "Service_New repository generator cfg =
     (case Config_validate cfg of
        Some err \<Rightarrow> Inl err
      | None \<Rightarrow> Inr \<lparr>srv_repository = repository, srv_generator = generator, srv_cfg = cfg\<rparr>)"

definition saveAlias :: "'w Service \<Rightarrow> ctx \<Rightarrow> string \<Rightarrow> string \<Rightarrow> ('w, string outcome) io" where
  "saveAlias s ctx url alias w =
     (case st_Save (srv_repository s) ctx url alias w of
        (Some err, w') \<Rightarrow> (Err (op_wrap ''service.URLService.saveAlias'' err), w')
      | (None, w') \<Rightarrow> (Ok alias, w'))"

definition save_generated_op :: string where
  "save_generated_op = ''service.URLService.saveGeneratedAlias''"

definition exhausted :: "'w Service \<Rightarrow> go_error" where
  "exhausted s = Dynamic (save_generated_op @ '': failed to generate unique alias after '' @
     show_int (MaxRetries (srv_cfg s)) @ '' retries'')"

fun save_attempts ::
  "'w runtime \<Rightarrow> 'w Service \<Rightarrow> ctx \<Rightarrow> string \<Rightarrow> nat \<Rightarrow> ('w, string outcome) io" where
  "save_attempts rt s ctx url 0 w = (Err (exhausted s), w)"
| "save_attempts rt s ctx url (Suc n) w =
     (case ctx_Err rt ctx w of
        (Some err, w1) \<Rightarrow> (Err (op_wrap save_generated_op err), w1)
      | (None, w1) \<Rightarrow>
          (case srv_generator s w1 of
             (Err err, w2) \<Rightarrow>
               (Err (Wrap (save_generated_op @ '': failed to generate alias: '') err []), w2)
           | (Panic m, w2) \<Rightarrow> (Panic m, w2)
           | (Diverges, w2) \<Rightarrow> (Diverges, w2)
           | (Ok alias, w2) \<Rightarrow>
               (case st_Save (srv_repository s) ctx url alias w2 of
                  (None, w3) \<Rightarrow> (Ok alias, w3)
                | (Some err, w3) \<Rightarrow>
                    (if errors_Is err ErrURLExist then save_attempts rt s ctx url n w3
                     else (Err (op_wrap save_generated_op err), w3)))))"

definition saveGeneratedAlias ::
  "'w runtime \<Rightarrow> 'w Service \<Rightarrow> ctx \<Rightarrow> string \<Rightarrow> ('w, string outcome) io" where
  "saveGeneratedAlias rt s ctx url w = save_attempts rt s ctx url (nat (MaxRetries (srv_cfg s))) w"

definition Service_Save ::
  "'w runtime \<Rightarrow> 'w Service \<Rightarrow> ctx \<Rightarrow> string \<Rightarrow> string \<Rightarrow> ('w, string outcome) io" where
  "Service_Save rt s ctx url0 alias0 w =
     (let url = TrimSpace url0; alias = TrimSpace alias0 in
      if url = [] then (Err (op_wrap ''service.URLService.Save'' (Sentinel ErrInvalidURL)), w)
      else if alias \<noteq> [] then saveAlias s ctx url alias w
      else saveGeneratedAlias rt s ctx url w)"

definition Service_Get :: "'w Service \<Rightarrow> ctx \<Rightarrow> string \<Rightarrow> ('w, go_error + string) io" where
  "Service_Get s ctx alias0 w =
     (let alias = TrimSpace alias0; op = ''service.URLService.Get'' in
      if alias = [] then (Inl (op_wrap op (Sentinel ErrEmptyAlias)), w)
      else (case st_Get (srv_repository s) ctx alias w of
              (Inl err, w') \<Rightarrow> (Inl (op_wrap op err), w')
            | (Inr url, w') \<Rightarrow> (Inr url, w')))"

definition Service_Delete :: "'w Service \<Rightarrow> ctx \<Rightarrow> string \<Rightarrow> ('w, go_error option) io" where
  "Service_Delete s ctx alias0 w =
     (let alias = TrimSpace alias0; op = ''service.URLService.Delete'' in
      if alias = [] then (Some (op_wrap op (Sentinel ErrEmptyAlias)), w)
      else (case st_Delete (srv_repository s) ctx alias w of
              (Some err, w') \<Rightarrow> (Some (op_wrap op err), w')
            | (None, w') \<Rightarrow> (None, w')))"

section \<open>The retry loop\<close>

text \<open>
  \<open>collisions\<close> relates the worlds before and after \<open>k\<close> attempts that all generated a taken
  alias.
\<close>

inductive collisions ::
  "'w runtime \<Rightarrow> 'w Service \<Rightarrow> ctx \<Rightarrow> string \<Rightarrow> 'w \<Rightarrow> nat \<Rightarrow> 'w \<Rightarrow> bool"
  for rt :: "'w runtime" and s :: "'w Service" and ctx :: ctx and url :: string where
  no_collision: "collisions rt s ctx url w 0 w"
| collision: "ctx_Err rt ctx w = (None, w1) \<Longrightarrow> srv_generator s w1 = (Ok a, w2) \<Longrightarrow>
     st_Save (srv_repository s) ctx url a w2 = (Some e, w3) \<Longrightarrow> errors_Is e ErrURLExist \<Longrightarrow>
     collisions rt s ctx url w3 k w' \<Longrightarrow> collisions rt s ctx url w (Suc k) w'"

inductive_cases collisions_SucE: "collisions rt s ctx url w (Suc k) w'"

text \<open>One attempt that stores an alias.\<close>

definition stores ::
  "'w runtime \<Rightarrow> 'w Service \<Rightarrow> ctx \<Rightarrow> string \<Rightarrow> 'w \<Rightarrow> string \<Rightarrow> 'w \<Rightarrow> bool" where
  "stores rt s ctx url w a w' \<longleftrightarrow>
     (\<exists>w1 w2. ctx_Err rt ctx w = (None, w1) \<and> srv_generator s w1 = (Ok a, w2) \<and>
        st_Save (srv_repository s) ctx url a w2 = (None, w'))"

lemma save_attempts_after_collisions:
  "collisions rt s ctx url w k w' \<Longrightarrow> save_attempts rt s ctx url (k + n) w = save_attempts rt s ctx url n w'"
  by (induction rule: collisions.induct) simp_all

lemma save_attempts_stores:
  "collisions rt s ctx url w k w1 \<Longrightarrow> stores rt s ctx url w1 a w' \<Longrightarrow> k < n \<Longrightarrow>
   save_attempts rt s ctx url n w = (Ok a, w')"
  using save_attempts_after_collisions [of rt s ctx url w k w1 "Suc (n - Suc k)"]
  by (auto simp: stores_def)

lemma save_attempts_Ok:
  "save_attempts rt s ctx url n w = (Ok a, w') \<Longrightarrow>
   \<exists>k w1. k < n \<and> collisions rt s ctx url w k w1 \<and> stores rt s ctx url w1 a w'"
proof (induction n arbitrary: w)
  case 0
  then show ?case by simp
next
  case (Suc n)
  from Suc.prems obtain w1 b w2 r w3 where
    step: "ctx_Err rt ctx w = (None, w1)" "srv_generator s w1 = (Ok b, w2)"
      "st_Save (srv_repository s) ctx url b w2 = (r, w3)"
    and res: "(case r of None \<Rightarrow> (Ok b, w3) | Some e \<Rightarrow>
        if errors_Is e ErrURLExist then save_attempts rt s ctx url n w3
        else (Err (op_wrap save_generated_op e), w3)) = (Ok a, w')"
    by (auto split: prod.splits option.splits outcome.splits)
  show ?case
  proof (cases r)
    case None
    with step res show ?thesis
      by (intro exI [of _ 0] exI [of _ w]) (auto simp: stores_def intro: no_collision)
  next
    case (Some e)
    with res have e: "errors_Is e ErrURLExist" "save_attempts rt s ctx url n w3 = (Ok a, w')"
      by (auto split: if_splits)
    from Suc.IH [OF e(2)] obtain k w4 where
      "k < n" "collisions rt s ctx url w3 k w4" "stores rt s ctx url w4 a w'" by blast
    with step Some e(1) show ?thesis
      by (intro exI [of _ "Suc k"] exI [of _ w4]) (auto intro: collision)
  qed
qed

lemma save_attempts_exhausted:
  "collisions rt s ctx url w n w' \<Longrightarrow> save_attempts rt s ctx url n w = (Err (exhausted s), w')"
  using save_attempts_after_collisions [of rt s ctx url w n w' 0] by simp

section \<open>The service on a link store\<close>

text \<open>
  What the service relies on: its repository is a link store, and neither the generator nor the
  context touches the links or returns the repository's conflict error.
\<close>

locale url_service = repo: link_store "srv_repository s" rows
  for s :: "'w Service" and rows :: "'w \<Rightarrow> links" +
  fixes rt :: "'w runtime"
  assumes ctx_rows: "ctx_Err rt x w = (ce, w') \<Longrightarrow> rows w' = rows w"
    and gen_rows: "srv_generator s w = (r, w') \<Longrightarrow> rows w' = rows w"
    and ctx_foreign: "ctx_Err rt x w = (Some e, w') \<Longrightarrow>
          \<not> errors_Is e ErrURLExist \<and> \<not> errors_Is e ErrInvalidURL"
    and gen_foreign: "srv_generator s w = (Err e, w') \<Longrightarrow>
          \<not> errors_Is e ErrURLExist \<and> \<not> errors_Is e ErrInvalidURL"
begin

lemma collisions_rows: "collisions rt s x url w k w' \<Longrightarrow> rows w' = rows w"
  by (induction rule: collisions.induct) (simp, metis ctx_rows gen_rows repo.save_exists)

lemma stores_rows: "stores rt s x url w a w' \<Longrightarrow> rows w a = None \<and> rows w' = (rows w)(a \<mapsto> url)"
  by (auto simp: stores_def dest!: ctx_rows gen_rows repo.save_ok)

lemma save_attempts_rows:
  "save_attempts rt s x url n w = (Ok a, w') \<Longrightarrow> rows w a = None \<and> rows w' = (rows w)(a \<mapsto> url)"
  by (auto dest!: save_attempts_Ok stores_rows collisions_rows)

lemma save_attempts_no_conflict:
  "save_attempts rt s x url n w = (Err e, w') \<Longrightarrow> \<not> errors_Is e ErrURLExist \<and> \<not> errors_Is e ErrInvalidURL"
proof (induction n arbitrary: w)
  case 0
  then show ?case by (auto simp: exhausted_def)
next
  case (Suc n)
  then show ?case
    by (auto split: prod.splits option.splits outcome.splits if_splits dest: ctx_foreign gen_foreign repo.save_url)
qed

lemma Save_stored:
  assumes "Service_Save rt s x url alias w = (Ok a, w')"
  shows "TrimSpace url \<noteq> [] \<and> rows w a = None \<and> rows w' = (rows w)(a \<mapsto> TrimSpace url) \<and>
         (TrimSpace alias \<noteq> [] \<longrightarrow> a = TrimSpace alias)"
  using assms
  by (auto simp: Service_Save_def saveAlias_def saveGeneratedAlias_def Let_def
      split: if_splits prod.splits option.splits dest: repo.save_ok save_attempts_rows)

lemma Save_conflict:
  assumes "Service_Save rt s x url alias w = (Err e, w')" and "errors_Is e ErrURLExist"
  shows "TrimSpace alias \<noteq> [] \<and> rows w (TrimSpace alias) \<noteq> None \<and> rows w' = rows w"
  using assms
  by (auto simp: Service_Save_def saveAlias_def saveGeneratedAlias_def Let_def
      split: if_splits prod.splits option.splits dest: repo.save_exists save_attempts_no_conflict)

lemma save_attempts_extends:
  "save_attempts rt s x url n w = (r, w') \<Longrightarrow> rows w \<subseteq>\<^sub>m rows w'"
proof (induction n arbitrary: w)
  case 0
  then show ?case by simp
next
  case (Suc n)
  obtain ce w1 where c: "ctx_Err rt x w = (ce, w1)" by (metis surj_pair)
  obtain g w2 where g: "srv_generator s w1 = (g, w2)" by (metis surj_pair)
  note fr = ctx_rows [OF c] gen_rows [OF g]
  show ?case
  proof (cases "ce = None \<and> (\<exists>a. g = Ok a)")
    case True
    then obtain a where a: "g = Ok a" by blast
    obtain e w3 where st: "st_Save (srv_repository s) x url a w2 = (e, w3)" by (metis surj_pair)
    note ex = repo.save_extends [OF st]
    show ?thesis
      using Suc.prems Suc.IH [of w3] True a c g st fr ex
      by (auto split: option.splits if_splits intro: map_le_trans)
  next
    case False
    with Suc.prems c g fr show ?thesis by (auto split: option.splits outcome.splits)
  qed
qed

text \<open>The service complains about the url exactly when nothing but spaces was given.\<close>

lemma Save_invalid_url:
  assumes "Service_Save rt s x url alias w = (Err e, w')"
  shows "errors_Is e ErrInvalidURL \<longleftrightarrow> TrimSpace url = []"
  using assms
  by (auto simp: Service_Save_def saveAlias_def saveGeneratedAlias_def Let_def
      split: if_splits prod.splits option.splits dest: repo.save_url save_attempts_no_conflict)

lemma Save_extends: "Service_Save rt s x url alias w = (r, w') \<Longrightarrow> rows w \<subseteq>\<^sub>m rows w'"
  by (auto simp: Service_Save_def saveAlias_def saveGeneratedAlias_def Let_def
      split: if_splits prod.splits option.splits dest: repo.save_extends save_attempts_extends)

lemma Get_missing:
  "Service_Get s x a w = (Inl e, w') \<Longrightarrow> errors_Is e ErrURLNotFound \<Longrightarrow> rows w (TrimSpace a) = None"
  by (auto simp: Service_Get_def Let_def split: if_splits prod.splits sum.splits dest: repo.get_missing)

lemma Get_frame: "Service_Get s x a w = (r, w') \<Longrightarrow> rows w' = rows w"
  by (auto simp: Service_Get_def Let_def split: if_splits prod.splits sum.splits dest: repo.get_frame)

lemma Delete_missing:
  "Service_Delete s x a w = (Some e, w') \<Longrightarrow> errors_Is e ErrURLNotFound \<Longrightarrow>
   rows w (TrimSpace a) = None \<and> rows w' = rows w"
  by (auto simp: Service_Delete_def Let_def split: if_splits prod.splits option.splits dest: repo.delete_missing)

lemma Delete_deletes:
  "Service_Delete s x a w = (None, w') \<Longrightarrow>
   rows w (TrimSpace a) \<noteq> None \<and> rows w' = (rows w)(TrimSpace a := None)"
  by (auto simp: Service_Delete_def Let_def split: if_splits prod.splits option.splits dest: repo.delete_ok)

end

section \<open>A service whose links resolve\<close>

text \<open>
  With reads below that return what is stored, and a generator whose aliases are free of spaces,
  a link the service has stored is the one it resolves.
\<close>

locale resolving_service = url_service s rows rt + repo: link_reader "srv_repository s" rows inv +
    gen: alias_source "srv_generator s" len \<Sigma>
  for s :: "'w Service" and rows :: "'w \<Rightarrow> links" and rt :: "'w runtime" and inv :: "'w \<Rightarrow> bool"
    and len :: nat and \<Sigma> :: "char set" +
  assumes ctx_inv: "inv w \<Longrightarrow> ctx_Err rt x w = (ce, w') \<Longrightarrow> inv w'"
    and gen_inv: "inv w \<Longrightarrow> srv_generator s w = (r, w') \<Longrightarrow> inv w'"
    and gen_positive: "0 < len"
    and gen_trimmed: "set a \<subseteq> \<Sigma> \<Longrightarrow> TrimSpace a = a"
begin

lemma collisions_inv: "collisions rt s x url w k w' \<Longrightarrow> inv w \<Longrightarrow> inv w'"
  by (induction rule: collisions.induct) (blast dest: ctx_inv gen_inv repo.inv_save)+

lemma stores_inv:
  assumes "stores rt s x url w a w'" and "inv w"
  shows "inv w' \<and> a \<noteq> [] \<and> TrimSpace a = a"
proof -
  from assms(1) obtain w1 w2 where
    st: "ctx_Err rt x w = (None, w1)" "srv_generator s w1 = (Ok a, w2)"
      "st_Save (srv_repository s) x url a w2 = (None, w')"
    by (auto simp: stores_def)
  from ctx_inv [OF assms(2) st(1)] gen_inv [OF _ st(2)] repo.inv_save [OF _ st(3)]
  have "inv w'" by simp
  with gen.generated_nonempty [OF st(2) gen_positive] gen.generated_alphabet [OF st(2)] gen_trimmed
  show ?thesis by simp
qed

lemma Save_inv:
  assumes "Service_Save rt s x url alias w = (Ok a, w')" and "inv w"
  shows "inv w' \<and> a \<noteq> [] \<and> TrimSpace a = a"
proof (cases "TrimSpace alias = []")
  case True
  with assms(1) have "save_attempts rt s x (TrimSpace url) (nat (MaxRetries (srv_cfg s))) w = (Ok a, w')"
    by (auto simp: Service_Save_def saveGeneratedAlias_def Let_def split: if_splits)
  from save_attempts_Ok [OF this] obtain k w1 where
    "collisions rt s x (TrimSpace url) w k w1" "stores rt s x (TrimSpace url) w1 a w'" by blast
  with assms(2) show ?thesis by (blast dest: collisions_inv stores_inv)
next
  case False
  with assms(1) have "a = TrimSpace alias"
    and "st_Save (srv_repository s) x (TrimSpace url) (TrimSpace alias) w = (None, w')"
    by (auto simp: Service_Save_def saveAlias_def Let_def split: if_splits prod.splits option.splits)
  with False repo.inv_save [OF assms(2)] show ?thesis by (auto simp: TrimSpace_idem)
qed

lemma Save_resolves:
  assumes "inv w" and "Service_Save rt s x url alias w = (Ok a, w1)"
    and "Service_Get s x' a w1 = (r, w2)"
  shows "r = Inr (TrimSpace url) \<or> (\<exists>e. r = Inl e \<and> \<not> errors_Is e ErrURLNotFound)"
proof -
  from Save_inv [OF assms(2,1)] have a: "inv w1" "a \<noteq> []" "TrimSpace a = a" by auto
  from Save_stored [OF assms(2)] have row: "rows w1 a = Some (TrimSpace url)" by simp
  from a assms(3) row show ?thesis
    by (cases r) (auto simp: Service_Get_def Let_def split: prod.splits sum.splits
      dest: repo.get_ok repo.get_missing)
qed

end


section \<open>A service that passes on only what was saved\<close>

locale guarded_service = repo: guarded_store "srv_repository s" safe P
  for s :: "'w Service" and safe :: "'w \<Rightarrow> bool" and P :: "string \<Rightarrow> bool" +
  fixes rt :: "'w runtime"
  assumes ctx_safe: "safe w \<Longrightarrow> ctx_Err rt x w = (ce, w') \<Longrightarrow> safe w'"
    and gen_safe: "safe w \<Longrightarrow> srv_generator s w = (r, w') \<Longrightarrow> safe w'"
begin

lemma save_attempts_guarded:
  "save_attempts rt s x url n w = (r, w') \<Longrightarrow> safe w \<Longrightarrow> P url \<Longrightarrow> safe w'"
proof (induction n arbitrary: w)
  case 0
  then show ?case by simp
next
  case (Suc n)
  obtain ce w1 where c: "ctx_Err rt x w = (ce, w1)" by (metis surj_pair)
  obtain g w2 where g: "srv_generator s w1 = (g, w2)" by (metis surj_pair)
  have safe: "safe w1" "safe w2"
    using ctx_safe [OF Suc.prems(2) c] gen_safe [OF _ g] by auto
  show ?case
  proof (cases "ce = None \<and> (\<exists>a. g = Ok a)")
    case True
    then obtain a where a: "g = Ok a" by blast
    obtain e w3 where st: "st_Save (srv_repository s) x url a w2 = (e, w3)" by (metis surj_pair)
    have "safe w3" by (rule repo.guard_save [OF safe(2) Suc.prems(3) st])
    with Suc.prems Suc.IH [of w3] True a c g st show ?thesis
      by (auto split: option.splits if_splits)
  next
    case False
    with Suc.prems c g safe show ?thesis by (auto split: option.splits outcome.splits)
  qed
qed

lemma Save_guarded:
  assumes "safe w" and "P (TrimSpace url)" and "Service_Save rt s x url alias w = (r, w')"
  shows "safe w'"
  using assms
  by (auto simp: Service_Save_def saveAlias_def saveGeneratedAlias_def Let_def
      split: if_splits prod.splits option.splits dest: repo.guard_save save_attempts_guarded)

lemma Get_guarded:
  "safe w \<Longrightarrow> Service_Get s x a w = (r, w') \<Longrightarrow> safe w' \<and> (\<forall>u. r = Inr u \<longrightarrow> P u)"
  by (auto simp: Service_Get_def Let_def split: if_splits prod.splits sum.splits dest: repo.guard_get)

lemma Delete_guarded: "safe w \<Longrightarrow> Service_Delete s x a w = (r, w') \<Longrightarrow> safe w'"
  by (auto simp: Service_Delete_def Let_def split: if_splits prod.splits option.splits dest: repo.guard_delete)

end

end
