(* ===== verification/Handlers.thy ===== *)
theory Handlers
  imports Validation Service Postgres Redis_Cache
begin

text \<open>
  \<open>internal/transport/http/handlers/url.go\<close> and \<open>health.go\<close>: the handlers of the links and
  of the readiness probe. A handler maps a request and a world to what it comes to. JSON decoding (\<open>render.DecodeJSON\<close>) and the validator are
  parameters.
\<close>

section \<open>Handlers\<close>

text \<open>
  What a handler comes to: a response, a return before anything was written, a panic before
  anything was written (\<open>Aborts\<close> is the panic with \<open>http.ErrAbortHandler\<close>), or no return.
\<close>

datatype handled = Responds http_response | Unwritten | Panics string | Aborts | Hangs

type_synonym 'w handler = "request \<Rightarrow> ('w, handled) io"

text \<open>
  \<open>http.MaxBytesReader\<close>: the bytes that can be read, and the error that follows them when the
  body is longer.
\<close>

type_synonym body_reader = "string \<times> go_error option"

definition MaxBytesReader :: "string \<Rightarrow> nat \<Rightarrow> body_reader" where
  "MaxBytesReader bytes n =
     (take n bytes, if n < length bytes then Some (Dynamic ''http: request body too large'') else None)"

definition maxSaveRequestBytes :: nat where
  "maxSaveRequestBytes = push_bit 20 1"

record 'w URLService =
  us_Save :: "ctx \<Rightarrow> string \<Rightarrow> string \<Rightarrow> ('w, string outcome) io"
  us_Get :: "ctx \<Rightarrow> string \<Rightarrow> ('w, go_error + string) io"
  us_Delete :: "ctx \<Rightarrow> string \<Rightarrow> ('w, go_error option) io"

definition url_service_of :: "'w runtime \<Rightarrow> 'w Service \<Rightarrow> 'w URLService" where
  "url_service_of rt s =
     \<lparr>us_Save = Service_Save rt s, us_Get = Service_Get s, us_Delete = Service_Delete s\<rparr>"

lemma url_service_of_simps [simp]:
  "us_Save (url_service_of rt s) = Service_Save rt s"
  "us_Get (url_service_of rt s) = Service_Get s"
  "us_Delete (url_service_of rt s) = Service_Delete s"
  by (simp_all add: url_service_of_def)

record ('w, 'v) Handler =
  h_service :: "'w URLService"
  h_validator :: 'v

definition Handler_New :: "'w URLService \<Rightarrow> 'v \<Rightarrow> ('w, 'v) Handler" where
  "Handler_New service validator = \<lparr>h_service = service, h_validator = validator\<rparr>"

lemma Handler_New_simps [simp]:
  "h_service (Handler_New sv v) = sv" "h_validator (Handler_New sv v) = v"
  by (simp_all add: Handler_New_def)

definition error_response :: "nat \<Rightarrow> string \<Rightarrow> http_response" where
  "error_response code msg = Respond code (PResponse (response_Error msg))"

definition Handler_Save ::
  "'v validator_lib \<Rightarrow> (body_reader \<Rightarrow> go_error + SaveRequest) \<Rightarrow> ('w, 'v) Handler \<Rightarrow> 'w handler" where
  "Handler_Save lib DecodeJSON h r w =
     (case DecodeJSON (MaxBytesReader (req_Body r) maxSaveRequestBytes) of
        Inl err \<Rightarrow> (Responds (error_response StatusBadRequest ''failed to decode request''), w)
      | Inr req \<Rightarrow>
          (case validate_Struct lib (h_validator h) (SaveRequest_rules req) of
             Invalid errs \<Rightarrow> (Responds (Respond StatusBadRequest (PResponse (ValidationError errs))), w)
           | Failed err \<Rightarrow> (Responds (error_response StatusInternalServerError ''validation error''), w)
           | Valid \<Rightarrow>
               (case us_Save (h_service h) (req_Context r) (sr_URL req) (sr_Alias req) w of
                  (Err err, w') \<Rightarrow>
                    (Responds (snd (RespondError err StatusInternalServerError ''failed add url''
                       [response_Case ErrURLExist StatusConflict ''url already exists'',
                        response_Case ErrInvalidURL StatusBadRequest ''url is required''])), w')
                | (Panic m, w') \<Rightarrow> (Panics m, w')
                | (Diverges, w') \<Rightarrow> (Hangs, w')
                | (Ok alias, w') \<Rightarrow> (Responds (Respond StatusOK (PSave response_Ok alias)), w'))))"

definition Handler_Get :: "(string \<Rightarrow> bool) \<Rightarrow> ('w, 'v) Handler \<Rightarrow> 'w handler" where
  "Handler_Get authority_ok h r w =
     (let alias = URLParam r ''alias'' in
      if alias = [] then (Responds (error_response StatusBadRequest ''invalid request''), w)
      else (case us_Get (h_service h) (req_Context r) alias w of
              (Inl err, w') \<Rightarrow>
                (Responds (snd (RespondError err StatusInternalServerError ''internal error''
                   [response_Case ErrURLNotFound StatusNotFound ''not found''])), w')
            | (Inr resURL, w') \<Rightarrow> (Responds (http_Redirect authority_ok r resURL StatusFound), w')))"

definition Handler_Delete :: "('w, 'v) Handler \<Rightarrow> 'w handler" where
  "Handler_Delete h r w =
     (let alias = URLParam r ''alias'' in
      if alias = [] then (Responds (error_response StatusBadRequest ''invalid request''), w)
      else (case us_Delete (h_service h) (req_Context r) alias w of
              (Some err, w') \<Rightarrow>
                (Responds (snd (RespondError err StatusInternalServerError ''internal error''
                   [response_Case ErrURLNotFound StatusNotFound ''not found''])), w')
            | (None, w') \<Rightarrow> (Responds (write_header StatusNoContent), w')))"

text \<open>\<open>ReadinessProbe\<close> over the pings of the database and of Redis.\<close>

type_synonym 'w Pinger = "ctx \<Rightarrow> ('w, go_error option) io"

definition ReadinessProbe :: "'w Pinger \<Rightarrow> 'w Pinger \<Rightarrow> 'w handler" where
  "ReadinessProbe db_Ping rdb_ping r w =
     (case db_Ping (req_Context r) w of
        (Some err, w1) \<Rightarrow> (Responds (write_text StatusServiceUnavailable ''db down''), w1)
      | (None, w1) \<Rightarrow>
          (case rdb_ping (req_Context r) w1 of
             (Some err, w2) \<Rightarrow> (Responds (write_text StatusServiceUnavailable ''redis down''), w2)
           | (None, w2) \<Rightarrow> (Responds (write_text StatusOK ''ok''), w2)))"

section \<open>Case analysis\<close>

lemma http_Redirect_simps [simp]:
  "hr_status (http_Redirect ok r u code) = code"
  "hr_location (http_Redirect ok r u code) = Some (redirect_location ok (req_Path r) u)"
  by (simp_all add: http_Redirect_def)

lemma error_response_simps [simp]:
  "hr_status (error_response code m) = code" "hr_location (error_response code m) = None"
  by (simp_all add: error_response_def)

text \<open>What \<open>Save\<close> answers when the service is reached.\<close>

lemma Handler_Save_valid:
  assumes "DecodeJSON (MaxBytesReader (req_Body r) maxSaveRequestBytes) = Inr req"
    and "validate_Struct lib (h_validator h) (SaveRequest_rules req) = Valid"
  shows "Handler_Save lib DecodeJSON h r w =
    (case us_Save (h_service h) (req_Context r) (sr_URL req) (sr_Alias req) w of
       (Ok alias, w') \<Rightarrow> (Responds (Respond 200 (PSave response_Ok alias)), w')
     | (Err err, w') \<Rightarrow>
         (Responds (if errors_Is err ErrURLExist then error_response 409 ''url already exists''
                    else if errors_Is err ErrInvalidURL then error_response 400 ''url is required''
                    else error_response 500 ''failed add url''), w')
     | (Panic m, w') \<Rightarrow> (Panics m, w')
     | (Diverges, w') \<Rightarrow> (Hangs, w'))"
  using assms
  by (auto simp: Handler_Save_def response_Case_def error_response_def split: prod.splits outcome.splits)

lemma Handler_Save_cases:
  assumes "Handler_Save lib DecodeJSON h r w = (out, w')"
  obtains (rejected) resp where "out = Responds resp" "w' = w" "hr_status resp \<in> {400, 500}"
      "hr_location resp = None"
  | (reached) req res where "DecodeJSON (MaxBytesReader (req_Body r) maxSaveRequestBytes) = Inr req"
      "validate_Struct lib (h_validator h) (SaveRequest_rules req) = Valid"
      "us_Save (h_service h) (req_Context r) (sr_URL req) (sr_Alias req) w = (res, w')"
proof (cases "DecodeJSON (MaxBytesReader (req_Body r) maxSaveRequestBytes)")
  case (Inl e)
  with assms show thesis by (auto simp: Handler_Save_def intro: rejected)
next
  case (Inr req)
  show thesis
  proof (cases "validate_Struct lib (h_validator h) (SaveRequest_rules req)")
    case Valid
    obtain res w1 where sv: "us_Save (h_service h) (req_Context r) (sr_URL req) (sr_Alias req) w = (res, w1)"
      by (metis surj_pair)
    with Inr Valid assms have "w' = w1"
      by (auto simp: Handler_Save_valid split: outcome.splits)
    with Inr Valid sv show thesis by (auto intro: reached)
  qed (use Inr assms in \<open>auto simp: Handler_Save_def intro: rejected\<close>)
qed

lemma Handler_Get_eq:
  "URLParam r ''alias'' \<noteq> [] \<Longrightarrow>
   Handler_Get ok h r w =
     (case us_Get (h_service h) (req_Context r) (URLParam r ''alias'') w of
        (Inr u, w') \<Rightarrow> (Responds (http_Redirect ok r u 302), w')
      | (Inl e, w') \<Rightarrow> (Responds (if errors_Is e ErrURLNotFound then error_response 404 ''not found''
                               else error_response 500 ''internal error''), w'))"
  by (auto simp: Handler_Get_def response_Case_def error_response_def Let_def
      split: prod.splits sum.splits)

lemma Handler_Delete_eq:
  "URLParam r ''alias'' \<noteq> [] \<Longrightarrow>
   Handler_Delete h r w =
     (case us_Delete (h_service h) (req_Context r) (URLParam r ''alias'') w of
        (None, w') \<Rightarrow> (Responds (write_header 204), w')
      | (Some e, w') \<Rightarrow> (Responds (if errors_Is e ErrURLNotFound then error_response 404 ''not found''
                               else error_response 500 ''internal error''), w'))"
  by (auto simp: Handler_Delete_def response_Case_def error_response_def Let_def
      split: prod.splits option.splits)


section \<open>The link handlers on a service\<close>

context url_service
begin

lemma GET_alias:
  assumes "URLParam r ''alias'' \<noteq> []"
    and "Handler_Get ok (Handler_New (url_service_of rt s) v) r w = (Responds resp, w')"
  shows "rows w' = rows w \<and> hr_status resp \<in> {302, 404, 500} \<and>
    (hr_status resp = 404 \<longrightarrow> rows w (TrimSpace (URLParam r ''alias'')) = None)"
proof -
  obtain g w1 where g: "Service_Get s (req_Context r) (URLParam r ''alias'') w = (g, w1)"
    by (metis surj_pair)
  with assms have out: "w' = w1" "resp = (case g of Inr u \<Rightarrow> http_Redirect ok r u 302
      | Inl e \<Rightarrow> if errors_Is e ErrURLNotFound then error_response 404 ''not found''
                 else error_response 500 ''internal error'')"
    by (auto simp: Handler_Get_eq split: sum.splits)
  show ?thesis
  proof (cases g)
    case (Inl e)
    with out Get_frame [OF g] Get_missing [OF g [unfolded Inl]] show ?thesis by auto
  qed (use out Get_frame [OF g] in auto)
qed

lemma DELETE_alias:
  assumes "URLParam r ''alias'' \<noteq> []"
    and "Handler_Delete (Handler_New (url_service_of rt s) v) r w = (Responds resp, w')"
  shows "hr_status resp \<in> {204, 404, 500} \<and>
    (hr_status resp = 204 \<longrightarrow> rows w (TrimSpace (URLParam r ''alias'')) \<noteq> None \<and>
       rows w' = (rows w)(TrimSpace (URLParam r ''alias'') := None)) \<and>
    (hr_status resp = 404 \<longrightarrow> rows w (TrimSpace (URLParam r ''alias'')) = None \<and> rows w' = rows w)"
proof -
  obtain g w1 where g: "Service_Delete s (req_Context r) (URLParam r ''alias'') w = (g, w1)"
    by (metis surj_pair)
  with assms have out: "w' = w1" "resp = (case g of None \<Rightarrow> write_header 204
      | Some e \<Rightarrow> if errors_Is e ErrURLNotFound then error_response 404 ''not found''
                 else error_response 500 ''internal error'')"
    by (auto simp: Handler_Delete_eq split: option.splits)
  show ?thesis
  proof (cases g)
    case None
    with out Delete_deletes [OF g [unfolded None]] show ?thesis by auto
  next
    case (Some e)
    with out Delete_missing [OF g [unfolded Some]] show ?thesis by auto
  qed
qed

end

end
