(* ===== verification/Ratelimit.thy ===== *)
theory Ratelimit
  imports Go_Float Handlers "HOL-Library.Signed_Division"
begin

text \<open>
  \<open>internal/transport/http/middleware/ratelimit/ratelimit.go\<close>: the token buckets, the
  sweeper and the middleware. The mutex makes \<open>allow\<close> and a pass of the sweeper atomic, so each
  is one function on the limiter; theory \<open>Limiter_Threads\<close> shows that. Floating-point operations round with \<open>fl\<close>, which is
  \<open>fl64\<close> in the properties. Times are the monotonic clock readings Go's \<open>time.Time\<close> carries.
\<close>

section \<open>The limiter\<close>

record bucket =
  tokens :: rat
  lastSeen :: time

record Limiter =
  buckets :: "string \<rightharpoonup> bucket"
  rate :: rat
  burst :: rat
  lim_ttl :: duration

definition Limiter_New :: "rat \<Rightarrow> rat \<Rightarrow> duration \<Rightarrow> Limiter" where
  "Limiter_New r b t = \<lparr>buckets = Map.empty, rate = r, burst = b, lim_ttl = t\<rparr>"

text \<open>\<open>Duration.Seconds\<close>: whole seconds and the rest, added as floating-point numbers.\<close>

definition Seconds :: "(rat \<Rightarrow> rat) \<Rightarrow> duration \<Rightarrow> rat" where
  "Seconds fl d =
     (let sec = d sdiv Second; nsec = d smod Second
      in fl (fl (of_int sec) + fl (fl (of_int nsec) / 1000000000)))"

definition allow :: "(rat \<Rightarrow> rat) \<Rightarrow> time \<Rightarrow> string \<Rightarrow> Limiter \<Rightarrow> bool \<times> Limiter" where
  "allow fl now key l =
     (let b = (case buckets l key of
                 Some b \<Rightarrow> b
               | None \<Rightarrow> \<lparr>tokens = burst l, lastSeen = now\<rparr>);
          elapsed = Seconds fl (time_Sub now (lastSeen b));
          t = min (burst l) (fl (tokens b + fl (elapsed * rate l)))
      in if t < 1 then (False, l\<lparr>buckets := (buckets l)(key \<mapsto> \<lparr>tokens = t, lastSeen = now\<rparr>)\<rparr>)
         else (True, l\<lparr>buckets := (buckets l)(key \<mapsto> \<lparr>tokens = fl (t - 1), lastSeen = now\<rparr>)\<rparr>))"

text \<open>One pass of the loop of \<open>sweep\<close>, at a tick.\<close>

definition sweep_tick :: "time \<Rightarrow> Limiter \<Rightarrow> Limiter" where
  "sweep_tick now l =
     (let cutoff = now + (- lim_ttl l)
      in l\<lparr>buckets := (\<lambda>key. case buckets l key of
             Some b \<Rightarrow> if lastSeen b < cutoff then None else Some b
           | None \<Rightarrow> None)\<rparr>)"

definition clientIP :: "request \<Rightarrow> string" where
  "clientIP r =
     (case SplitHostPort (req_RemoteAddr r) of
        Inl err \<Rightarrow> req_RemoteAddr r
      | Inr (host, port) \<Rightarrow> host)"

text \<open>The middleware on a world that holds the limiter (\<open>lget\<close>, \<open>lput\<close>).\<close>

definition Limiter_Middleware ::
  "(rat \<Rightarrow> rat) \<Rightarrow> 'w runtime \<Rightarrow> ('w \<Rightarrow> Limiter) \<Rightarrow> (Limiter \<Rightarrow> 'w \<Rightarrow> 'w) \<Rightarrow> 'w handler \<Rightarrow> 'w handler" where
  "Limiter_Middleware fl rt lget lput nxt r w =
     (let key = clientIP r in
      case time_Now rt w of (now, w1) \<Rightarrow>
        (case allow fl now key (lget w1) of (ok, l) \<Rightarrow>
           let w2 = lput l w1 in
           if \<not> ok then (Responds (error_response StatusTooManyRequests ''rate limit exceeded''), w2)
           else nxt r w2))"

section \<open>One call\<close>

definition bucket_of :: "time \<Rightarrow> string \<Rightarrow> Limiter \<Rightarrow> bucket" where
  "bucket_of now key l =
     (case buckets l key of Some b \<Rightarrow> b | None \<Rightarrow> \<lparr>tokens = burst l, lastSeen = now\<rparr>)"

definition refilled :: "(rat \<Rightarrow> rat) \<Rightarrow> time \<Rightarrow> string \<Rightarrow> Limiter \<Rightarrow> rat" where
  "refilled fl now key l =
     (let b = bucket_of now key l
      in min (burst l) (fl (tokens b + fl (Seconds fl (time_Sub now (lastSeen b)) * rate l))))"

lemma allow_refilled:
  "allow fl now key l =
     (1 \<le> refilled fl now key l,
      l\<lparr>buckets := (buckets l)(key \<mapsto>
         \<lparr>tokens = if refilled fl now key l < 1 then refilled fl now key l else fl (refilled fl now key l - 1),
          lastSeen = now\<rparr>)\<rparr>)"
  by (auto simp: allow_def refilled_def bucket_of_def Let_def)

lemma allow_config [simp]:
  "rate (snd (allow fl now key l)) = rate l" "burst (snd (allow fl now key l)) = burst l"
  "lim_ttl (snd (allow fl now key l)) = lim_ttl l"
  "k \<noteq> key \<Longrightarrow> buckets (snd (allow fl now key l)) k = buckets l k"
  by (simp_all add: allow_refilled)

lemma sweep_config [simp]:
  "rate (sweep_tick now l) = rate l" "burst (sweep_tick now l) = burst l"
  "lim_ttl (sweep_tick now l) = lim_ttl l"
  by (simp_all add: sweep_tick_def)

lemma time_Sub_nonneg: "u \<le> t \<Longrightarrow> 0 \<le> time_Sub t u \<and> time_Sub t u \<le> t - u \<and> time_Sub t u < 2 ^ 63"
  by (simp add: time_Sub_def)

lemma sdiv_Second:
  assumes "0 \<le> d"
  shows "d sdiv Second = d div Second" and "d smod Second = d mod Second"
  using assms by (cases "d = 0"; simp add: signed_divide_int_def signed_modulo_int_def Second_def)+

text \<open>A configuration of whole tokens whose idle buckets are full again when they are evicted.\<close>

definition sane :: "Limiter \<Rightarrow> bool" where
  "sane l \<longleftrightarrow> (\<exists>n. burst l = of_int n \<and> 1 \<le> n \<and> n \<le> 2 ^ 53) \<and> 0 \<le> rate l \<and>
     (\<exists>s. lim_ttl l = s * Second \<and> 0 \<le> s \<and> s < 2 ^ 33 \<and> burst l \<le> of_int s * rate l)"

definition bounded :: "Limiter \<Rightarrow> bool" where
  "bounded l \<longleftrightarrow> (\<forall>k b. buckets l k = Some b \<longrightarrow> 0 \<le> tokens b \<and> tokens b \<le> burst l)"

context float_rounding
begin

lemma Seconds_bounds:
  assumes "0 \<le> d" and "d < 2 ^ 63"
  shows "0 \<le> Seconds fl d" and "of_int (d div Second) \<le> Seconds fl d"
    and "Seconds fl d \<le> of_int d / 1000000000 * (1 + u) ^ 2"
proof -
  let ?s = "d div Second" and ?n = "d mod Second"
  have sn: "0 \<le> ?s" "?s \<le> 2 ^ 53" "0 \<le> ?n" "?n \<le> 2 ^ 53"
    using assms by (auto simp: Second_def)
  have eq: "Seconds fl d = fl (of_int ?s + fl (of_int ?n / 1000000000))"
    using sn by (simp add: Seconds_def Let_def sdiv_Second [OF assms(1)] exact)
  have frac: "0 \<le> fl (of_int ?n / 1000000000)"
    by (rule nonneg) (use sn in simp)
  show "of_int ?s \<le> Seconds fl d"
    using mono [of "of_int ?s" "of_int ?s + fl (of_int ?n / 1000000000)"] sn frac by (simp add: eq exact)
  then show "0 \<le> Seconds fl d" using sn by (auto intro: order_trans [rotated])
  have dd: "(of_int d :: rat) = of_int ?s * 1000000000 + of_int ?n"
  proof -
    have "d = ?s * 1000000000 + ?n" using div_mult_mod_eq [of d Second] by (simp add: Second_def)
    then show ?thesis by (metis of_int_add of_int_mult of_int_numeral)
  qed
  have "fl (of_int ?n / 1000000000) \<le> of_int ?n / 1000000000 * (1 + u)"
    by (rule error) (use sn in simp)
  moreover have "of_int ?s \<le> of_int ?s * (1 + u)" using sn u_pos by (simp add: algebra_simps)
  ultimately have "of_int ?s + fl (of_int ?n / 1000000000) \<le> of_int d / 1000000000 * (1 + u)"
    by (simp add: dd algebra_simps add_divide_distrib)
  then have "(of_int ?s + fl (of_int ?n / 1000000000)) * (1 + u) \<le> of_int d / 1000000000 * (1 + u) * (1 + u)"
    using u_pos by (intro mult_right_mono) auto
  moreover have "Seconds fl d \<le> (of_int ?s + fl (of_int ?n / 1000000000)) * (1 + u)"
    unfolding eq by (rule error) (use sn frac in simp)
  ultimately show "Seconds fl d \<le> of_int d / 1000000000 * (1 + u) ^ 2"
    unfolding power2_eq_square mult.assoc by (rule order_trans [rotated])
qed

lemma refilled_bounds:
  assumes "bounded l" and "0 \<le> burst l" and "0 \<le> rate l"
    and "\<And>b. buckets l key = Some b \<Longrightarrow> lastSeen b \<le> now"
  shows "0 \<le> refilled fl now key l \<and> refilled fl now key l \<le> burst l"
proof -
  let ?b = "bucket_of now key l"
  have seen: "lastSeen ?b \<le> now" and tok: "0 \<le> tokens ?b"
    using assms by (auto simp: bucket_of_def bounded_def split: option.splits)
  from time_Sub_nonneg [OF seen] have "0 \<le> Seconds fl (time_Sub now (lastSeen ?b))"
    by (auto intro: Seconds_bounds)
  with tok assms(2,3) show ?thesis
    by (auto simp: refilled_def Let_def intro!: nonneg add_nonneg_nonneg mult_nonneg_nonneg)
qed


lemma allow_bounded:
  assumes "bounded l" and "0 \<le> rate l" and "burst l = of_int n" and "1 \<le> n" and "n \<le> 2 ^ 53"
    and "\<And>b. buckets l key = Some b \<Longrightarrow> lastSeen b \<le> now"
  shows "bounded (snd (allow fl now key l))"
proof -
  let ?t = "refilled fl now key l"
  have t: "0 \<le> ?t" "?t \<le> burst l"
    using refilled_bounds [OF assms(1) _ assms(2,6)] assms(3,4) by auto
  have "fl (?t - 1) \<le> burst l" if "1 \<le> ?t"
    using mono [of "?t - 1" "of_int n"] exact [of n] that t assms(3-5) by auto
  moreover have "0 \<le> fl (?t - 1)" if "1 \<le> ?t" using that by (simp add: nonneg)
  ultimately show ?thesis using assms(1) t by (auto simp: bounded_def allow_refilled)
qed

text \<open>At one instant nothing is refilled: a bucket of \<open>n\<close> whole tokens lets \<open>n\<close> calls pass.\<close>

lemma refilled_same_instant:
  assumes "buckets l key = Some \<lparr>tokens = of_int m, lastSeen = now\<rparr> \<or> buckets l key = None \<and> burst l = of_int m"
    and "0 \<le> m" and "m \<le> 2 ^ 53" and "of_int m \<le> burst l"
  shows "refilled fl now key l = of_int m"
proof -
  have "Seconds fl 0 = 0" by (simp add: Seconds_def Second_def)
  then show ?thesis
    using assms by (auto simp: refilled_def bucket_of_def Let_def time_Sub_def exact)
qed

lemma allow_same_instant:
  assumes "buckets l key = Some \<lparr>tokens = of_int m, lastSeen = now\<rparr> \<or> buckets l key = None \<and> burst l = of_int m"
    and "0 \<le> m" and "m \<le> 2 ^ 53" and "of_int m \<le> burst l"
  shows "allow fl now key l = (1 \<le> m, l\<lparr>buckets := (buckets l)(key \<mapsto>
           \<lparr>tokens = of_int (if m < 1 then m else m - 1), lastSeen = now\<rparr>)\<rparr>)"
proof -
  have "fl (of_int m - 1) = of_int (m - 1)" if "1 \<le> m"
    using exact [of "m - 1"] that assms(3) by simp
  then show ?thesis
    using refilled_same_instant [OF assms] by (auto simp: allow_refilled)
qed

end

section \<open>Sequences of calls and sweeps\<close>

datatype limiter_event = Call time string | Sweep time

fun limiter_run :: "(rat \<Rightarrow> rat) \<Rightarrow> limiter_event list \<Rightarrow> Limiter \<Rightarrow> (string \<times> bool) list \<times> Limiter" where
  "limiter_run fl [] l = ([], l)"
| "limiter_run fl (Call now key # es) l =
     (case allow fl now key l of (b, l1) \<Rightarrow>
        case limiter_run fl es l1 of (ds, l2) \<Rightarrow> ((key, b) # ds, l2))"
| "limiter_run fl (Sweep now # es) l = limiter_run fl es (sweep_tick now l)"

fun event_time :: "limiter_event \<Rightarrow> time" where
  "event_time (Call t k) = t"
| "event_time (Sweep t) = t"

text \<open>
  Events in the order in which they hold the mutex. \<open>allow\<close> reads the clock while it holds it, so
  the times of calls grow; the sweeper reads the clock before, so that a pass may follow calls that
  are later than its cutoff suggests.
\<close>

fun clock_after :: "time \<Rightarrow> limiter_event \<Rightarrow> time" where
  "clock_after t (Call now k) = now"
| "clock_after t (Sweep now) = max t now"

fun in_order :: "time \<Rightarrow> limiter_event list \<Rightarrow> bool" where
  "in_order t [] = True"
| "in_order t (e # es) = (t \<le> clock_after t e \<and> in_order (clock_after t e) es)"

fun end_time :: "time \<Rightarrow> limiter_event list \<Rightarrow> time" where
  "end_time t [] = t"
| "end_time t (e # es) = end_time (clock_after t e) es"

lemma in_order_append: "in_order t (es @ [e]) \<longleftrightarrow> in_order t es \<and> end_time t es \<le> clock_after (end_time t es) e"
  by (induction es arbitrary: t) auto

lemma end_time_append [simp]: "end_time t (es @ [e]) = clock_after (end_time t es) e"
  by (induction es arbitrary: t) auto

lemma limiter_run_append:
  "limiter_run fl (es @ [e]) l =
     (case limiter_run fl es l of (ds, l1) \<Rightarrow> case limiter_run fl [e] l1 of (ds', l2) \<Rightarrow> (ds @ ds', l2))"
  by (induction fl es l rule: limiter_run.induct) (simp_all split: prod.split)

definition seen_by :: "time \<Rightarrow> Limiter \<Rightarrow> bool" where
  "seen_by t l \<longleftrightarrow> (\<forall>k b. buckets l k = Some b \<longrightarrow> lastSeen b \<le> t)"

definition limiter_ok :: "time \<Rightarrow> Limiter \<Rightarrow> bool" where
  "limiter_ok t l \<longleftrightarrow> sane l \<and> bounded l \<and> seen_by t l"

lemma sane_allow [simp]: "sane (snd (allow fl now key l)) = sane l"
  by (simp add: sane_def)

lemma sane_sweep [simp]: "sane (sweep_tick now l) = sane l"
  by (simp add: sane_def)

lemma sweep_Some: "buckets (sweep_tick now l) k = Some b \<Longrightarrow> buckets l k = Some b"
  by (auto simp: sweep_tick_def Let_def split: option.splits if_splits)

lemma sweep_ok:
  assumes "limiter_ok t l" and "t \<le> t'"
  shows "limiter_ok t' (sweep_tick now l)"
  using assms by (auto simp: limiter_ok_def bounded_def seen_by_def dest!: sweep_Some) fastforce

context float_rounding
begin

lemma allow_ok:
  assumes "limiter_ok t l" and "t \<le> now"
  shows "limiter_ok now (snd (allow fl now key l))"
proof -
  from assms obtain n where n: "burst l = of_int n" "1 \<le> n" "n \<le> 2 ^ 53"
    and r: "0 \<le> rate l" and b: "bounded l" and s: "\<And>k b. buckets l k = Some b \<Longrightarrow> lastSeen b \<le> now"
    by (force simp: limiter_ok_def sane_def seen_by_def)
  have "bounded (snd (allow fl now key l))" by (rule allow_bounded [OF b r n]) (rule s)
  moreover have "seen_by now (snd (allow fl now key l))"
    using s by (auto simp: seen_by_def allow_refilled)
  ultimately show ?thesis using assms(1) by (simp add: limiter_ok_def)
qed

lemma run_ok:
  "limiter_ok t l \<Longrightarrow> in_order t es \<Longrightarrow> limiter_run fl es l = (ds, l') \<Longrightarrow> limiter_ok (end_time t es) l'"
proof (induction es arbitrary: t l ds)
  case Nil
  then show ?case by simp
next
  case (Cons e es)
  show ?case
  proof (cases e)
    case (Call now k)
    obtain b l1 where a: "allow fl now k l = (b, l1)" by (metis surj_pair)
    with allow_ok [OF Cons.prems(1), of now k] Cons.prems Call have "limiter_ok now l1" by simp
    with Cons.IH [of now l1] Cons.prems Call a show ?thesis by (auto split: prod.splits)
  next
    case (Sweep now)
    with Cons.IH [OF sweep_ok [OF Cons.prems(1)]] Cons.prems show ?thesis by simp
  qed
qed

end


section \<open>The long-run rate\<close>

definition passed :: "string \<Rightarrow> (string \<times> bool) list \<Rightarrow> nat" where
  "passed key ds = length (filter (\<lambda>d. d = (key, True)) ds)"

definition attempts :: "string \<Rightarrow> (string \<times> bool) list \<Rightarrow> nat" where
  "attempts key ds = length (filter (\<lambda>d. fst d = key) ds)"

text \<open>
  What a key can still spend until time \<open>T\<close>: its tokens and what is refilled since it was
  last seen, \<open>q\<close> covering the rounding of the refill.
\<close>

definition credit :: "rat \<Rightarrow> time \<Rightarrow> string \<Rightarrow> time \<Rightarrow> Limiter \<Rightarrow> rat" where
  "credit q T key t l =
     (let b = bucket_of t key l
      in tokens b + rate l * (of_int (T - lastSeen b) / 1000000000) * q)"

context float_rounding
begin

lemma refill_split:
  "r * (of_int (now - s) / 1000000000) * q + r * (of_int (T - now) / 1000000000) * q =
   r * (of_int (T - s) / 1000000000 :: rat) * q"
  by (simp add: algebra_simps diff_divide_distrib)

lemma refilled_le:
  assumes "limiter_ok t l" and "t \<le> now" and "buckets l key = Some b"
  shows "refilled fl now key l \<le>
    tokens b + u * burst l + rate l * (of_int (now - lastSeen b) / 1000000000) * (1 + u) ^ 4"
proof -
  from assms have r: "0 \<le> rate l" and tok: "0 \<le> tokens b" "tokens b \<le> burst l" and seen: "lastSeen b \<le> now"
    by (fastforce simp: limiter_ok_def sane_def bounded_def seen_by_def)+
  let ?d = "time_Sub now (lastSeen b)" and ?s = "of_int (now - lastSeen b) / 1000000000 :: rat"
  note d = time_Sub_nonneg [OF seen]
  have S: "0 \<le> Seconds fl ?d" "Seconds fl ?d \<le> ?s * (1 + u) ^ 2"
  proof -
    show "0 \<le> Seconds fl ?d" using d by (intro Seconds_bounds) auto
    have "Seconds fl ?d \<le> of_int ?d / 1000000000 * (1 + u) ^ 2" using d by (intro Seconds_bounds) auto
    also have "\<dots> \<le> ?s * (1 + u) ^ 2"
      using d u_pos by (intro mult_right_mono divide_right_mono) auto
    finally show "Seconds fl ?d \<le> ?s * (1 + u) ^ 2" .
  qed
  let ?g = "fl (Seconds fl ?d * rate l)"
  have g0: "0 \<le> ?g" using S r by (intro nonneg) simp
  have "?g \<le> Seconds fl ?d * rate l * (1 + u)" using S r by (intro error) simp
  also have "\<dots> \<le> ?s * (1 + u) ^ 2 * rate l * (1 + u)"
    using S r u_pos by (intro mult_right_mono) auto
  finally have g: "?g \<le> rate l * ?s * (1 + u) ^ 3" by (simp add: power2_eq_square power3_eq_cube algebra_simps)
  have "refilled fl now key l \<le> fl (tokens b + ?g)" by (simp add: refilled_def bucket_of_def assms(3) Let_def)
  also have "\<dots> \<le> (tokens b + ?g) * (1 + u)" using tok g0 by (intro error) simp
  also have "\<dots> = tokens b + u * tokens b + ?g * (1 + u)" by (simp add: algebra_simps)
  also have "\<dots> \<le> tokens b + u * burst l + rate l * ?s * (1 + u) ^ 3 * (1 + u)"
    using tok g u_pos by (intro add_mono mult_left_mono mult_right_mono) auto
  also have "rate l * ?s * (1 + u) ^ 3 * (1 + u) = rate l * ?s * (1 + u) ^ 4"
    by (simp add: power4_eq_xxxx power3_eq_cube mult.assoc)
  finally show ?thesis .
qed

lemma spend:
  assumes "0 \<le> t" and "t \<le> B"
  shows "(if t < 1 then t else fl (t - 1)) + (if 1 \<le> t then 1 else 0) \<le> t + u * B"
proof (cases "t < 1")
  case True
  with assms u_pos show ?thesis by simp
next
  case False
  then have "fl (t - 1) \<le> (t - 1) * (1 + u)" by (intro error) simp
  moreover have "u * (t - 1) \<le> u * B" using assms u_pos by (intro mult_left_mono) auto
  ultimately show ?thesis using False by (simp add: algebra_simps)
qed

lemma credit_later:
  assumes "0 \<le> rate l" and "t \<le> now"
  shows "credit ((1 + u) ^ 4) T key now l \<le> credit ((1 + u) ^ 4) T key t l"
proof (cases "buckets l key")
  case None
  with assms u_pos show ?thesis
    by (auto simp: credit_def bucket_of_def intro!: mult_right_mono mult_left_mono divide_right_mono)
qed (simp add: credit_def bucket_of_def)

lemma credit_call:
  assumes ok: "limiter_ok t l" and "t \<le> now"
  shows "credit ((1 + u) ^ 4) T key now (snd (allow fl now key l)) +
           (if fst (allow fl now key l) then 1 else 0)
         \<le> credit ((1 + u) ^ 4) T key t l + 2 * u * burst l"
proof -
  let ?q = "(1 + u) ^ 4" and ?t = "refilled fl now key l"
  from assms obtain n where n: "burst l = of_int n" "1 \<le> n" "n \<le> 2 ^ 53" and r: "0 \<le> rate l"
    and bd: "bounded l" and seen: "\<And>b. buckets l key = Some b \<Longrightarrow> lastSeen b \<le> now"
    by (force simp: limiter_ok_def sane_def seen_by_def)
  have t: "0 \<le> ?t" "?t \<le> burst l" using refilled_bounds [OF bd _ r seen] n by auto
  note sp = spend [OF t]
  have after: "credit ?q T key now (snd (allow fl now key l)) + (if fst (allow fl now key l) then 1 else 0)
      \<le> ?t + u * burst l + rate l * (of_int (T - now) / 1000000000) * ?q"
    using sp by (simp add: credit_def bucket_of_def allow_refilled Let_def) 
  show ?thesis
  proof (cases "buckets l key")
    case None
    with n u_pos have "?t = burst l"
      using refilled_same_instant [of l key n now] by auto
    moreover have "credit ?q T key now l = burst l + rate l * (of_int (T - now) / 1000000000) * ?q"
      using None by (simp add: credit_def bucket_of_def)
    moreover have "0 \<le> u * burst l" using u_pos n by simp
    ultimately show ?thesis using after credit_later [OF r assms(2), of T key] by simp
  next
    case (Some b)
    with after refilled_le [OF ok assms(2) Some] refill_split [of "rate l" now "lastSeen b" ?q T]
    have "credit ?q T key now (snd (allow fl now key l)) + (if fst (allow fl now key l) then 1 else 0)
        \<le> tokens b + 2 * u * burst l + rate l * (of_int (T - lastSeen b) / 1000000000) * ?q"
      by linarith
    then show ?thesis by (simp add: credit_def bucket_of_def Some)
  qed
qed

lemma credit_sweep:
  assumes ok: "limiter_ok t l" and "t \<le> t'" and "now \<le> t'"
  shows "credit ((1 + u) ^ 4) T key t' (sweep_tick now l) \<le> credit ((1 + u) ^ 4) T key t l"
proof (cases "buckets (sweep_tick now l) key = buckets l key")
  case True
  then have "bucket_of t' key (sweep_tick now l) = bucket_of t' key l"
    by (cases "buckets l key") (simp_all add: bucket_of_def)
  moreover from ok have "0 \<le> rate l" by (simp add: limiter_ok_def sane_def)
  ultimately show ?thesis
    using credit_later [OF _ assms(2), of l T key] by (simp add: credit_def)
next
  case False
  let ?q = "(1 + u) ^ 4"
  from False obtain b where b: "buckets l key = Some b" "buckets (sweep_tick now l) key = None"
    and "lastSeen b < now - lim_ttl l"
    by (auto simp: sweep_tick_def Let_def split: option.splits if_splits)
  with assms(3) have old: "lastSeen b < t' - lim_ttl l" by simp
  from ok obtain s where s: "lim_ttl l = s * Second" "burst l \<le> of_int s * rate l" "0 \<le> s" and r: "0 \<le> rate l"
    and tok: "0 \<le> tokens b"
    using b(1) by (auto simp: limiter_ok_def sane_def bounded_def)
  have q: "1 \<le> ?q" using u_pos by (simp add: one_le_power)
  have idle: "(of_int s :: rat) \<le> of_int (t' - lastSeen b) / 1000000000"
  proof -
    have "s * 1000000000 \<le> t' - lastSeen b" using old s by (simp add: Second_def)
    then have "(of_int (s * 1000000000) :: rat) \<le> of_int (t' - lastSeen b)" by (simp only: of_int_le_iff)
    then show ?thesis by simp
  qed
  have "burst l \<le> rate l * (of_int (t' - lastSeen b) / 1000000000) * 1"
    using s(2) mult_left_mono [OF idle r] by (simp add: mult.commute)
  also have "\<dots> \<le> rate l * (of_int (t' - lastSeen b) / 1000000000) * ?q"
  proof (rule mult_left_mono [OF q])
    have "0 \<le> (of_int (t' - lastSeen b) :: rat) / 1000000000" using idle s(3) by (meson of_int_0_le_iff order_trans)
    then show "0 \<le> rate l * (of_int (t' - lastSeen b) / 1000000000)" using r by simp
  qed
  finally have "burst l \<le> rate l * (of_int (t' - lastSeen b) / 1000000000) * ?q" .
  with refill_split [of "rate l" t' "lastSeen b" ?q T] tok
  have "burst l + rate l * (of_int (T - t') / 1000000000) * ?q \<le>
      tokens b + rate l * (of_int (T - lastSeen b) / 1000000000) * ?q" by linarith
  then show ?thesis using b by (simp add: credit_def bucket_of_def)
qed

end


lemma credit_nonneg:
  "limiter_ok t l \<Longrightarrow> t \<le> T \<Longrightarrow> 0 \<le> q \<Longrightarrow> 0 \<le> credit q T key t l"
  by (auto simp: credit_def bucket_of_def limiter_ok_def sane_def bounded_def seen_by_def
      intro!: add_nonneg_nonneg mult_nonneg_nonneg split: option.splits)
    (meson order_trans)+

lemma passed_simps [simp]:
  "passed key [] = 0" "attempts key [] = 0"
  "passed key ((k, b) # ds) = (if k = key \<and> b then 1 else 0) + passed key ds"
  "attempts key ((k, b) # ds) = (if k = key then 1 else 0) + attempts key ds"
  by (auto simp: passed_def attempts_def)

context float_rounding
begin

lemma credit_other:
  assumes "limiter_ok t l" and "t \<le> now" and "k \<noteq> key"
  shows "credit ((1 + u) ^ 4) T key now (snd (allow fl now k l)) \<le> credit ((1 + u) ^ 4) T key t l"
proof -
  have "bucket_of now key (snd (allow fl now k l)) = bucket_of now key l"
    using assms(3) by (cases "buckets l key") (simp_all add: bucket_of_def)
  moreover from assms have "0 \<le> rate l" by (simp add: limiter_ok_def sane_def)
  ultimately show ?thesis
    using credit_later [OF _ assms(2), of l T key] by (simp add: credit_def)
qed

lemma passed_le_credit:
  assumes "limiter_ok t l" and "in_order t es" and "\<forall>e \<in> set es. event_time e \<le> T" and "t \<le> T"
    and "limiter_run fl es l = (ds, l')"
  shows "of_nat (passed key ds) \<le> credit ((1 + u) ^ 4) T key t l + 2 * u * burst l * of_nat (attempts key ds)"
  using assms
proof (induction es arbitrary: t l ds)
  case Nil
  then show ?case using u_pos by (auto intro: credit_nonneg)
next
  case (Cons e es)
  show ?case
  proof (cases e)
    case (Sweep now)
    let ?t = "max t now"
    from Sweep Cons.prems Cons.IH [OF sweep_ok [OF Cons.prems(1), of ?t now], of ds]
    have "of_nat (passed key ds) \<le> credit ((1 + u) ^ 4) T key ?t (sweep_tick now l) +
        2 * u * burst l * of_nat (attempts key ds)"
      by simp
    with credit_sweep [OF Cons.prems(1), of ?t now T key] show ?thesis by simp
  next
    case (Call now k)
    obtain b l1 where a: "allow fl now k l = (b, l1)" by (metis surj_pair)
    obtain ds1 where rest: "limiter_run fl es l1 = (ds1, l')" and ds: "ds = (k, b) # ds1"
      using Cons.prems(5) Call a by (auto split: prod.splits)
    have now: "t \<le> now" "in_order now es" "now \<le> T" using Cons.prems(2,3) Call by auto
    have l1: "limiter_ok now l1" "burst l1 = burst l"
      using allow_ok [OF Cons.prems(1) now(1), of k] allow_config(2) [of fl now k l] a by auto
    have "of_nat (passed key ds1) \<le> credit ((1 + u) ^ 4) T key now l1 +
        2 * u * burst l1 * of_nat (attempts key ds1)"
      using Cons.IH [OF l1(1) now(2) _ now(3) rest] Cons.prems(3) by simp
    moreover have "credit ((1 + u) ^ 4) T key now l1 + (if k = key \<and> b then 1 else 0)
        \<le> credit ((1 + u) ^ 4) T key t l + (if k = key then 2 * u * burst l else 0)"
      using credit_call [OF Cons.prems(1) now(1), of T k] credit_other [OF Cons.prems(1) now(1), of k key T] a
      by (auto split: if_splits)
    ultimately show ?thesis by (auto simp: ds l1(2) algebra_simps)
  qed
qed

end

section \<open>Eviction\<close>

text \<open>Two limiters that differ at most in buckets that are idle for longer than the ttl.\<close>

definition swept :: "time \<Rightarrow> Limiter \<Rightarrow> Limiter \<Rightarrow> bool" where
  "swept t l l' \<longleftrightarrow> rate l' = rate l \<and> burst l' = burst l \<and> lim_ttl l' = lim_ttl l \<and>
     (\<forall>k. buckets l' k = buckets l k \<or>
          buckets l' k = None \<and> (\<exists>b. buckets l k = Some b \<and> lastSeen b < t - lim_ttl l))"

lemma swept_refl: "swept t l l"
  by (simp add: swept_def)

lemma swept_tick:
  assumes "swept t l l'" and "t \<le> t'" and "now \<le> t'"
  shows "swept t' l (sweep_tick now l')"
proof -
  have "buckets (sweep_tick now l') k = buckets l k \<or> buckets (sweep_tick now l') k = None \<and>
      (\<exists>b. buckets l k = Some b \<and> lastSeen b < t' - lim_ttl l)" for k
  proof (cases "buckets l' k = buckets l k")
    case True
    moreover have "now - lim_ttl l \<le> t' - lim_ttl l" using assms(3) by simp
    moreover have "lim_ttl l' = lim_ttl l" using assms(1) by (simp add: swept_def)
    ultimately show ?thesis
      by (cases "buckets l k") (auto simp: sweep_tick_def Let_def dest: order_less_le_trans)
  next
    case False
    with assms show ?thesis unfolding swept_def sweep_tick_def Let_def by fastforce
  qed
  with assms(1) show ?thesis by (simp add: swept_def)
qed

context float_rounding
begin

lemma refilled_idle:
  assumes ok: "limiter_ok t l" and "t \<le> now" and b: "buckets l key = Some b"
    and idle: "lastSeen b < now - lim_ttl l"
  shows "refilled fl now key l = burst l"
proof -
  from ok b obtain s n where s: "lim_ttl l = s * Second" "0 \<le> s" "s < 2 ^ 33" "burst l \<le> of_int s * rate l"
    and n: "burst l = of_int n" "1 \<le> n" "n \<le> 2 ^ 53" and r: "0 \<le> rate l"
    unfolding limiter_ok_def sane_def by blast
  have tok: "0 \<le> tokens b" "tokens b \<le> burst l"
    using ok b by (auto simp: limiter_ok_def bounded_def)
  let ?d = "time_Sub now (lastSeen b)"
  have "s * 1000000000 \<le> ?d" "0 \<le> ?d" "?d < 2 ^ 63"
    using idle s by (auto simp: time_Sub_def Second_def)
  moreover from this have "s \<le> ?d div Second" by (simp add: Second_def zdiv_mono1 pos_imp_zdiv_nonneg_iff)
  ultimately have "of_int s \<le> Seconds fl ?d"
    using Seconds_bounds(2) [of ?d] by (auto intro: order_trans [of _ "of_int (?d div Second)"])
  then have "of_int n \<le> Seconds fl ?d * rate l"
    using mult_right_mono [OF _ r, of "of_int s" "Seconds fl ?d"] s(4) n(1) by simp
  then have "of_int n \<le> fl (Seconds fl ?d * rate l)"
    using mono [of "of_int n"] exact [of n] n by (metis dual_order.trans linear of_int_0_le_iff zero_le_one)
  then have "of_int n \<le> tokens b + fl (Seconds fl ?d * rate l)" using tok by simp
  then have "of_int n \<le> fl (tokens b + fl (Seconds fl ?d * rate l))"
    using mono [of "of_int n"] exact [of n] n by (metis dual_order.trans linear of_int_0_le_iff zero_le_one)
  then show ?thesis using n b by (simp add: refilled_def bucket_of_def Let_def min_def)
qed

lemma swept_refilled:
  assumes "swept t l l'" and "limiter_ok t l" and "t \<le> now"
  shows "refilled fl now key l' = refilled fl now key l"
proof (cases "buckets l' key = buckets l key")
  case True
  with assms(1) show ?thesis
    by (cases "buckets l key") (simp_all add: refilled_def bucket_of_def swept_def)
next
  case False
  with assms(1) obtain b where b: "buckets l' key = None" "buckets l key = Some b" "lastSeen b < t - lim_ttl l"
    and c: "burst l' = burst l"
    by (auto simp: swept_def)
  from assms(2) obtain n where "burst l = of_int n" "1 \<le> n" "n \<le> 2 ^ 53"
    by (auto simp: limiter_ok_def sane_def)
  with b c have "refilled fl now key l' = burst l"
    using refilled_same_instant [of l' key n now] by auto
  moreover have "refilled fl now key l = burst l"
    using refilled_idle [OF assms(2,3) b(2)] b(3) assms(3) by simp
  ultimately show ?thesis by simp
qed

lemma swept_allow:
  assumes "swept t l l'" and "limiter_ok t l" and "t \<le> now"
  shows "fst (allow fl now key l') = fst (allow fl now key l) \<and>
         swept now (snd (allow fl now key l)) (snd (allow fl now key l'))"
  using assms(1,3) swept_refilled [OF assms, of key]
  by (auto simp: allow_refilled swept_def)

lemma swept_run:
  assumes "swept t l l'" and "limiter_ok t l" and "in_order t es"
  shows "fst (limiter_run fl es l') = fst (limiter_run fl (filter (\<lambda>e. \<exists>n k. e = Call n k) es) l)"
  using assms
proof (induction es arbitrary: t l l')
  case Nil
  then show ?case by simp
next
  case (Cons e es)
  show ?case
  proof (cases e)
    case (Sweep now)
    let ?t = "max t now"
    have "limiter_ok ?t l" using Cons.prems
      by (auto simp: limiter_ok_def seen_by_def intro: max.coboundedI1)
    with Cons.prems Cons.IH [OF swept_tick [OF Cons.prems(1), of ?t now]] Sweep show ?thesis by simp
  next
    case (Call now k)
    with Cons.prems have now: "t \<le> now" "in_order now es" by auto
    note sw = swept_allow [OF Cons.prems(1,2) now(1), of k]
    from Cons.IH [OF conjunct2 [OF sw] allow_ok [OF Cons.prems(2) now(1)] now(2)] sw Call
    show ?thesis by (simp split: prod.splits) (metis fst_conv snd_conv)
  qed
qed

end


section \<open>Keys\<close>

text \<open>Two limiters that agree on one key.\<close>

definition agree_on :: "string \<Rightarrow> Limiter \<Rightarrow> Limiter \<Rightarrow> bool" where
  "agree_on key l l' \<longleftrightarrow> rate l' = rate l \<and> burst l' = burst l \<and> lim_ttl l' = lim_ttl l \<and>
     buckets l' key = buckets l key"

fun concerns :: "string \<Rightarrow> limiter_event \<Rightarrow> bool" where
  "concerns key (Call t k) = (k = key)"
| "concerns key (Sweep t) = True"

lemma agree_refilled: "agree_on key l l' \<Longrightarrow> refilled fl now key l' = refilled fl now key l"
  by (cases "buckets l key") (simp_all add: agree_on_def refilled_def bucket_of_def)

lemma agree_run:
  "agree_on key l l' \<Longrightarrow>
   filter (\<lambda>d. fst d = key) (fst (limiter_run fl es l)) = fst (limiter_run fl (filter (concerns key) es) l')"
proof (induction es arbitrary: l l')
  case Nil
  then show ?case by simp
next
  case (Cons e es)
  show ?case
  proof (cases e)
    case (Sweep now)
    have "agree_on key (sweep_tick now l) (sweep_tick now l')"
      using Cons.prems by (simp add: agree_on_def sweep_tick_def)
    from Cons.IH [OF this] Sweep show ?thesis by simp
  next
    case (Call now k)
    show ?thesis
    proof (cases "k = key")
      case True
      have same: "fst (allow fl now key l) = fst (allow fl now key l')"
        "agree_on key (snd (allow fl now key l)) (snd (allow fl now key l'))"
        using Cons.prems agree_refilled [OF Cons.prems, of fl now]
        by (simp_all add: allow_refilled agree_on_def)
      from Cons.IH [OF same(2)] same(1) Call True show ?thesis by (simp add: case_prod_beta)
    next
      case False
      have "agree_on key (snd (allow fl now k l)) l'"
        using Cons.prems False by (simp add: agree_on_def)
      from Cons.IH [OF this] Call False show ?thesis by (simp add: case_prod_beta)
    qed
  qed
qed

section \<open>The configured limiters\<close>

definition writeEndpointRate :: rat where "writeEndpointRate = 5"
definition writeEndpointBurst :: rat where "writeEndpointBurst = 20"
definition authEndpointRate :: rat where "authEndpointRate = 1"
definition authEndpointBurst :: rat where "authEndpointBurst = 5"

text \<open>The build with the tag \<open>integration\<close> has its own limits.\<close>

definition writeEndpointRate_integration :: rat where "writeEndpointRate_integration = 1000"
definition writeEndpointBurst_integration :: rat where "writeEndpointBurst_integration = 5000"
definition authEndpointRate_integration :: rat where "authEndpointRate_integration = 1000"
definition authEndpointBurst_integration :: rat where "authEndpointBurst_integration = 5000"

definition limiterEntryTTL :: duration where
  "limiterEntryTTL = 10 * Minute"

definition authLimiter :: Limiter where
  "authLimiter = Limiter_New authEndpointRate authEndpointBurst limiterEntryTTL"

definition writeLimiter :: Limiter where
  "writeLimiter = Limiter_New writeEndpointRate writeEndpointBurst limiterEntryTTL"

lemmas limiter_consts =
  Limiter_New_def writeEndpointRate_def writeEndpointBurst_def authEndpointRate_def
  authEndpointBurst_def limiterEntryTTL_def Minute_def

lemma New_ok: "sane (Limiter_New r b ttl) \<Longrightarrow> limiter_ok t (Limiter_New r b ttl)"
  by (simp add: limiter_ok_def bounded_def seen_by_def Limiter_New_def)

lemma configured_sane: "sane writeLimiter" "sane authLimiter"
proof -
  have "sane (Limiter_New 5 20 (600 * Second))" "sane (Limiter_New 1 5 (600 * Second))"
    unfolding sane_def Limiter_New_def
    by (auto intro!: exI [of _ 20] exI [of _ 5] exI [of _ 600])
  then show "sane writeLimiter" "sane authLimiter"
    by (simp_all add: writeLimiter_def authLimiter_def limiter_consts)
qed

lemma integration_sane:
  "sane (Limiter_New writeEndpointRate_integration writeEndpointBurst_integration limiterEntryTTL)"
  "sane (Limiter_New authEndpointRate_integration authEndpointBurst_integration limiterEntryTTL)"
proof -
  have "sane (Limiter_New 1000 5000 (600 * Second))"
    unfolding sane_def Limiter_New_def by (auto intro!: exI [of _ 5000] exI [of _ 600])
  then show "sane (Limiter_New writeEndpointRate_integration writeEndpointBurst_integration limiterEntryTTL)"
    "sane (Limiter_New authEndpointRate_integration authEndpointBurst_integration limiterEntryTTL)"
    by (simp_all add: writeEndpointRate_integration_def writeEndpointBurst_integration_def
        authEndpointRate_integration_def authEndpointBurst_integration_def limiterEntryTTL_def Minute_def)
qed

section \<open>Properties\<close>

text \<open>
  The long-run rate: the number of requests of one client that pass from time \<open>t\<close> to \<open>T\<close>.
\<close>

lemma limiter_rate_bound:
  assumes "sane (Limiter_New r b ttl)" and "in_order t es" and "\<forall>e \<in> set es. event_time e \<le> T"
    and "t \<le> T" and "limiter_run fl64 es (Limiter_New r b ttl) = (ds, l')"
  shows "of_nat (passed key ds) \<le>
    b + r * (of_int (T - t) / 1000000000) * (1 + 1 / 2 ^ 53) ^ 4 + of_nat (attempts key ds) * b / 2 ^ 52"
proof -
  have "of_nat (passed key ds) \<le> credit ((1 + 1 / 2 ^ 53) ^ 4) T key t (Limiter_New r b ttl) +
      2 * (1 / 2 ^ 53) * burst (Limiter_New r b ttl) * of_nat (attempts key ds)"
    by (rule f64.passed_le_credit [OF New_ok [OF assms(1)] assms(2-5)])
  moreover have "credit ((1 + 1 / 2 ^ 53) ^ 4) T key t (Limiter_New r b ttl) =
      b + r * (of_int (T - t) / 1000000000) * (1 + 1 / 2 ^ 53) ^ 4"
    by (simp add: credit_def bucket_of_def Limiter_New_def)
  ultimately show ?thesis by (simp add: Limiter_New_def mult.commute)
qed

lemma same_instant_run:
  assumes "buckets l key = Some \<lparr>tokens = of_int (int n), lastSeen = now\<rparr> \<or>
      buckets l key = None \<and> burst l = of_int (int n)"
    and "n \<le> 2 ^ 53" and "of_int (int n) \<le> burst l"
  shows "fst (limiter_run fl64 (replicate m (Call now key)) l) =
    replicate (min m n) (key, True) @ replicate (m - n) (key, False)"
  using assms
proof (induction m arbitrary: n l)
  case 0
  then show ?case by simp
next
  case (Suc m)
  note IH = Suc.IH and prems = Suc.prems
  have "int n \<le> 2 ^ 53" using Suc.prems(2) by (metis of_nat_le_iff of_nat_numeral of_nat_power)
  note al = f64.allow_same_instant [OF Suc.prems(1) _ this Suc.prems(3)]
  show ?case
  proof (cases n)
    case 0
    with al Suc.IH [where n = 0 and l = "snd (allow fl64 now key l)"] Suc.prems show ?thesis by (simp add: case_prod_beta)
  next
    case (Suc k)
    with al IH [where n = k and l = "snd (allow fl64 now key l)"] prems show ?thesis
      by (simp add: case_prod_beta)
  qed
qed

text \<open>
  The burst is exact: of \<open>m\<close> requests of a new client at one instant the first
  \<open>burst\<close> pass and the others are refused.
\<close>

lemma limiter_burst_exact:
  assumes "n \<le> 2 ^ 53"
  shows "fst (limiter_run fl64 (replicate m (Call now key)) (Limiter_New r (of_nat n) ttl)) =
    replicate (min m n) (key, True) @ replicate (m - n) (key, False)"
  using same_instant_run [of "Limiter_New r (of_nat n) ttl" key n now m] assms
  by (simp add: Limiter_New_def)

text \<open>
  C26. Eviction is invisible: with any passes of the sweeper in between, every request is decided
  as if no bucket had ever been evicted, because a bucket that is idle for the ttl would be full
  again.
\<close>

theorem limiter_sweep_invisible:
  assumes "sane (Limiter_New r b ttl)" and "in_order t es"
  shows "fst (limiter_run fl64 es (Limiter_New r b ttl)) =
         fst (limiter_run fl64 (filter (\<lambda>e. \<exists>n k. e = Call n k) es) (Limiter_New r b ttl))"
  by (rule f64.swept_run [OF swept_refl New_ok [OF assms(1)] assms(2)])

theorem limiter_sweep_invisible_witness:
  "fst (limiter_run fl64 [Call 0 ''10.0.0.1'', Sweep 900000000000, Call 900000000000 ''10.0.0.1''] writeLimiter) =
   fst (limiter_run fl64 [Call 0 ''10.0.0.1'', Call 900000000000 ''10.0.0.1''] writeLimiter)"
  using limiter_sweep_invisible [OF configured_sane(1) [unfolded writeLimiter_def], of 0
      "[Call 0 ''10.0.0.1'', Sweep 900000000000, Call 900000000000 ''10.0.0.1'']"]
  by (simp add: writeLimiter_def)

text \<open>
  Clients do not affect each other: the decisions for one key, in any run of calls and
  sweeps, are those of the run without the calls of all other keys.
\<close>

lemma limiter_isolates_keys:
  "filter (\<lambda>d. fst d = key) (fst (limiter_run fl es l)) = fst (limiter_run fl (filter (concerns key) es) l)"
  by (rule agree_run) (simp add: agree_on_def)

end
