(* ===== verification/Authn.thy ===== *)
theory Authn
  imports Handlers Go_Float
begin

text \<open>
  \<open>internal/authn/authn.go\<close> and \<open>middleware/auth/auth.go\<close>: the verifier of access tokens
  and the middleware that asks for one. \<open>jwt.Parse\<close> is a parameter; what the verifier relies
  on of it is the locale \<open>jwt_library\<close>.
\<close>

section \<open>Tokens\<close>

text \<open>A decoded JSON value as \<open>encoding/json\<close> puts it into an \<open>any\<close>.\<close>

datatype json_value =
    JNull | JBool bool | JNumber rat | JString string
  | JArray "json_value list" | JObject "(string \<times> json_value) list"

datatype signing_method = SigningMethodHMAC string | OtherMethod string

fun method_alg :: "signing_method \<Rightarrow> string" where
  "method_alg (SigningMethodHMAC a) = a"
| "method_alg (OtherMethod a) = a"

datatype token_claims = MapClaims "string \<rightharpoonup> json_value" | OtherClaims

record jwt_token =
  tok_Method :: signing_method
  tok_Valid :: bool
  tok_Claims :: token_claims

type_synonym keyfunc = "signing_method \<Rightarrow> go_error + string"
type_synonym 'w jwt_parse =
  "string \<Rightarrow> keyfunc \<Rightarrow> string list \<Rightarrow> ('w, go_error + jwt_token) io"

text \<open>
  The conversion \<open>uint64(x)\<close> of a \<open>float64\<close> drops the fraction; what it gives outside the
  range of the type is up to the implementation (\<open>oob\<close>).
\<close>

definition float_trunc :: "rat \<Rightarrow> int" where
  "float_trunc x = (if 0 \<le> x then \<lfloor>x\<rfloor> else \<lceil>x\<rceil>)"

definition uint64_of_float :: "(rat \<Rightarrow> 64 word) \<Rightarrow> rat \<Rightarrow> 64 word" where
  "uint64_of_float oob x =
     (let n = float_trunc x in if 0 \<le> n \<and> n < 2 ^ 64 then word_of_int n else oob x)"

section \<open>The verifier\<close>

record Claims =
  cl_UserID :: "64 word"
  cl_Email :: string

record Verifier =
  ver_secret :: string
  ver_applicationID :: "64 word"

definition NewVerifier :: "string \<Rightarrow> 64 word \<Rightarrow> go_error + Verifier" where
  "NewVerifier secret applicationID =
     (if applicationID = 0 then Inl (Sentinel ErrMissingApplicationID)
      else if secret = [] then Inl (Sentinel ErrMissingSecret)
      else Inr \<lparr>ver_secret = secret, ver_applicationID = applicationID\<rparr>)"

definition verify_keyfunc :: "Verifier \<Rightarrow> keyfunc" where
  "verify_keyfunc v m =
     (case m of
        SigningMethodHMAC _ \<Rightarrow> Inr (ver_secret v)
      | OtherMethod alg \<Rightarrow> Inl (Dynamic (''unexpected signing method: '' @ alg)))"

text \<open>The type assertions \<open>.(float64)\<close> and \<open>.(string)\<close> with their zero values.\<close>

definition as_float :: "json_value option \<Rightarrow> rat" where
  "as_float j = (case j of Some (JNumber x) \<Rightarrow> x | _ \<Rightarrow> 0)"

definition as_string :: "json_value option \<Rightarrow> string" where
  "as_string j = (case j of Some (JString s) \<Rightarrow> s | _ \<Rightarrow> [])"

definition Verify ::
  "'w jwt_parse \<Rightarrow> (rat \<Rightarrow> 64 word) \<Rightarrow> Verifier \<Rightarrow> string \<Rightarrow> ('w, go_error + Claims) io" where
  "Verify jwt_Parse oob v tokenStr w =
     (if tokenStr = [] then (Inl (Sentinel ErrMissingToken), w)
      else (case jwt_Parse tokenStr (verify_keyfunc v) [''HS256''] w of
              (res, w') \<Rightarrow>
                (case res of
                   Inl err \<Rightarrow> (Inl (Sentinel ErrInvalidToken), w')
                 | Inr token \<Rightarrow>
                     (if \<not> tok_Valid token then (Inl (Sentinel ErrInvalidToken), w')
                      else (case tok_Claims token of
                              OtherClaims \<Rightarrow> (Inl (Sentinel ErrInvalidToken), w')
                            | MapClaims claims \<Rightarrow>
                                (let appID = as_float (claims ''app_id'') in
                                 if uint64_of_float oob appID \<noteq> ver_applicationID v
                                 then (Inl (Sentinel ErrInvalidToken), w')
                                 else (let uid = as_float (claims ''uid''); email = as_string (claims ''email'')
                                       in (Inr \<lparr>cl_UserID = uint64_of_float oob uid, cl_Email = email\<rparr>, w'))))))))"

section \<open>The middleware\<close>

definition User :: "ctx \<Rightarrow> Claims option" where
  "User ctx =
     (case ctx_Value ctx ClaimsKey of
        Some (VClaims uid email) \<Rightarrow> Some \<lparr>cl_UserID = uid, cl_Email = email\<rparr>
      | _ \<Rightarrow> None)"

definition with_claims :: "request \<Rightarrow> Claims \<Rightarrow> request" where
  "with_claims r c =
     r\<lparr>req_Context := WithValue (req_Context r) ClaimsKey (VClaims (cl_UserID c) (cl_Email c))\<rparr>"

definition RequireAuth ::
  "(string \<Rightarrow> ('w, go_error + Claims) io) \<Rightarrow> 'w handler \<Rightarrow> 'w handler" where
  "RequireAuth verify nxt r w =
     (let prefix = ''Bearer ''; header = Header_Get r ''Authorization'' in
      if \<not> HasPrefix header prefix
      then (Responds (error_response StatusUnauthorized ''missing bearer token''), w)
      else (case verify (TrimPrefix header prefix) w of
              (Inl err, w') \<Rightarrow> (Responds (error_response StatusUnauthorized ''invalid or expired token''), w')
            | (Inr claims, w') \<Rightarrow> nxt (with_claims r claims) w'))"

section \<open>What the verifier relies on\<close>

text \<open>
  \<open>jwt.Parse\<close> with \<open>WithValidMethods\<close>: it reports no error and marks the token valid only if
  the algorithm is one of those listed, the key function returned a key, and the signature of
  the text verifies under that key (\<open>sig_ok\<close>). A token it gives back carries the claims of
  its payload (\<open>payload\<close>) as \<open>MapClaims\<close>.
\<close>

locale jwt_library =
  fixes jwt_Parse :: "'w jwt_parse"
    and sig_ok :: "string \<Rightarrow> string \<Rightarrow> string \<Rightarrow> bool"
    and payload :: "string \<Rightarrow> string \<rightharpoonup> json_value"
  assumes parse_valid: "jwt_Parse t kf ms w = (Inr tok, w') \<Longrightarrow> tok_Valid tok \<Longrightarrow>
      method_alg (tok_Method tok) \<in> set ms \<and>
      (\<exists>key. kf (tok_Method tok) = Inr key \<and> sig_ok (method_alg (tok_Method tok)) key t)"
    and parse_claims: "jwt_Parse t kf ms w = (Inr tok, w') \<Longrightarrow> tok_Claims tok = MapClaims (payload t)"
begin

lemma Verify_accepts:
  assumes "Verify jwt_Parse oob v t w = (Inr c, w')"
  shows "t \<noteq> [] \<and> sig_ok ''HS256'' (ver_secret v) t \<and>
    uint64_of_float oob (as_float (payload t ''app_id'')) = ver_applicationID v \<and>
    cl_UserID c = uint64_of_float oob (as_float (payload t ''uid'')) \<and>
    cl_Email c = as_string (payload t ''email'')"
proof -
  from assms obtain tok w1 claims where
    tok: "jwt_Parse t (verify_keyfunc v) [''HS256''] w = (Inr tok, w1)" "tok_Valid tok"
    and cl: "tok_Claims tok = MapClaims claims" "t \<noteq> []"
      "uint64_of_float oob (as_float (claims ''app_id'')) = ver_applicationID v"
      "c = \<lparr>cl_UserID = uint64_of_float oob (as_float (claims ''uid'')), cl_Email = as_string (claims ''email'')\<rparr>"
    by (auto simp: Verify_def Let_def split: if_splits prod.splits sum.splits token_claims.splits)
  from parse_valid [OF tok] have "sig_ok ''HS256'' (ver_secret v) t"
    by (auto simp: verify_keyfunc_def split: signing_method.splits)
  with cl parse_claims [OF tok(1)] show ?thesis by auto
qed

end


section \<open>An executable token format\<close>

text \<open>
  The library the witnesses run: a token is its algorithm, its key, the two halves of the
  fraction \<open>app_id\<close>, the user id and the email, separated by dots, and its signature is that the
  key is the expected one.
\<close>

definition mini_claims :: "string \<Rightarrow> string \<rightharpoonup> json_value" where
  "mini_claims t =
     (case split_on (CHR ''.'') t of
        [alg, key, p, q, uid, email] \<Rightarrow>
          [''app_id'' \<mapsto> JNumber (of_nat (read_nat p) / of_nat (read_nat q)),
           ''uid'' \<mapsto> JNumber (of_nat (read_nat uid)), ''email'' \<mapsto> JString email]
      | _ \<Rightarrow> Map.empty)"

definition mini_signed :: "string \<Rightarrow> string \<Rightarrow> string \<Rightarrow> bool" where
  "mini_signed alg key t \<longleftrightarrow> HasPrefix t (alg @ ''.'' @ key @ ''.'')"

definition mini_Parse :: "'w jwt_parse" where
  "mini_Parse t kf ms w =
     (let m = SigningMethodHMAC (fst (Cut t (CHR ''.''))) in
      (case kf m of
         Inl e \<Rightarrow> Inl e
       | Inr key \<Rightarrow>
           if method_alg m \<in> set ms \<and> mini_signed (method_alg m) key t
           then Inr \<lparr>tok_Method = m, tok_Valid = True, tok_Claims = MapClaims (mini_claims t)\<rparr>
           else Inl (Dynamic ''token signature is invalid''), w))"

interpretation mini: jwt_library mini_Parse mini_signed mini_claims
  by unfold_locales (auto simp: mini_Parse_def Let_def split: sum.splits if_splits)

section \<open>Properties\<close>

text \<open>
  C13. Which tokens are accepted, by a verifier that \<open>NewVerifier\<close> constructed: only those
  whose HS256 signature verifies under the application's secret and whose \<open>app_id\<close> is a number
  that converts to the application's id. In particular a token with no \<open>app_id\<close>, or one that is
  not a number, is rejected whatever its signature, since the id is not zero; and the claims handed
  on are those of the token.
\<close>

theorem Verify_sound:
  assumes "jwt_library jwt_Parse sig_ok payload" and "NewVerifier secret appid = Inr v"
    and "Verify jwt_Parse oob v t w = (Inr c, w')"
  shows "sig_ok ''HS256'' secret t \<and> secret \<noteq> [] \<and>
         (\<exists>x. payload t ''app_id'' = Some (JNumber x) \<and> uint64_of_float oob x = appid) \<and>
         cl_UserID c = uint64_of_float oob (as_float (payload t ''uid'')) \<and>
         cl_Email c = as_string (payload t ''email'')"
proof -
  from assms(2) have v: "ver_secret v = secret" "ver_applicationID v = appid" "appid \<noteq> 0" "secret \<noteq> []"
    by (auto simp: NewVerifier_def split: if_splits)
  note acc = jwt_library.Verify_accepts [OF assms(1,3)]
  have "\<exists>x. payload t ''app_id'' = Some (JNumber x) \<and> uint64_of_float oob x = appid"
  proof (cases "\<exists>x. payload t ''app_id'' = Some (JNumber x)")
    case True
    with acc v show ?thesis by (auto simp: as_float_def)
  next
    case False
    then have "as_float (payload t ''app_id'') = 0"
      by (auto simp: as_float_def split: option.splits json_value.splits)
    with acc v have "uint64_of_float oob 0 = appid" by simp
    with v show ?thesis by (simp add: uint64_of_float_def float_trunc_def)
  qed
  with acc v show ?thesis by auto
qed

definition app7 :: Verifier where
  "app7 = \<lparr>ver_secret = ''s3cret'', ver_applicationID = 7\<rparr>"

lemma app7_New: "NewVerifier ''s3cret'' 7 = Inr app7"
  by (simp add: NewVerifier_def app7_def)

lemmas verify_eval =
  Verify_def verify_keyfunc_def mini_Parse_def mini_signed_def mini_claims_def app7_def Cut_def
  HasPrefix_def read_nat_def as_float_def as_string_def uint64_of_float_def float_trunc_def Let_def

lemma app7_accepts:
  "Verify mini_Parse (\<lambda>_. 0) app7 ''HS256.s3cret.7.1.42.root@localhost'' w = (Inr \<lparr>cl_UserID = 42, cl_Email = ''root@localhost''\<rparr>, w)"
  by (simp add: verify_eval)

theorem Verify_sound_witness:
  "Verify mini_Parse (\<lambda>_. 0) app7 ''HS256.s3cret.7.1.42.root@localhost'' () = (Inr \<lparr>cl_UserID = 42, cl_Email = ''root@localhost''\<rparr>, ()) \<and>
   mini_signed ''HS256'' ''s3cret'' ''HS256.s3cret.7.1.42.root@localhost''"
  using Verify_sound [OF mini.jwt_library_axioms app7_New app7_accepts] app7_accepts by simp

text \<open>
  The comparison of application ids is on truncated numbers: a token whose \<open>app_id\<close> is
  7.9 is accepted by the verifier of application 7.
\<close>

lemma fractional_app_id_accepted:
  "mini_claims ''HS256.s3cret.79.10.42.root@localhost'' ''app_id'' = Some (JNumber (79 / 10)) \<and>
   Verify mini_Parse (\<lambda>_. 0) app7 ''HS256.s3cret.79.10.42.root@localhost'' () = (Inr \<lparr>cl_UserID = 42, cl_Email = ''root@localhost''\<rparr>, ())"
proof -
  have "\<lfloor>79 / 10 :: rat\<rfloor> = 7" by (simp add: floor_eq_iff)
  then show ?thesis by (simp add: verify_eval)
qed

text \<open>
  C25. The middleware guards the handler behind it: it answers 401 itself, without consulting the
  handler, unless the request carries \<open>Authorization: Bearer t\<close> and the verifier accepts
  \<open>t\<close>; then, and only then, the handler runs, with a context from which \<open>User\<close> reads exactly
  the verified claims and whose other values are those of the request.
\<close>

theorem RequireAuth_guards:
  assumes "RequireAuth verify nxt r w = (out, w')"
  shows "(\<exists>msg. out = Responds (error_response 401 msg) \<and> RequireAuth verify other r w = (out, w')) \<or>
         (\<exists>t c w1. Header_Get r ''Authorization'' = ''Bearer '' @ t \<and> verify t w = (Inr c, w1) \<and>
            nxt (with_claims r c) w1 = (out, w') \<and> User (req_Context (with_claims r c)) = Some c \<and>
            (\<forall>k. k \<noteq> ClaimsKey \<longrightarrow> ctx_Value (req_Context (with_claims r c)) k = ctx_Value (req_Context r) k))"
proof (cases "HasPrefix (Header_Get r ''Authorization'') ''Bearer ''")
  case False
  with assms show ?thesis by (auto simp: RequireAuth_def)
next
  case True
  then obtain t where t: "Header_Get r ''Authorization'' = ''Bearer '' @ t" by (auto simp: HasPrefix_iff)
  have trim: "TrimPrefix (''Bearer '' @ t) ''Bearer '' = t" by (simp add: TrimPrefix_def HasPrefix_def)
  obtain res w1 where v: "verify t w = (res, w1)" by (metis surj_pair)
  show ?thesis
  proof (cases res)
    case (Inl e)
    with assms t trim v True show ?thesis by (auto simp: RequireAuth_def)
  next
    case (Inr c)
    have "User (req_Context (with_claims r c)) = Some c" by (simp add: User_def with_claims_def)
    moreover have "\<forall>k. k \<noteq> ClaimsKey \<longrightarrow>
        ctx_Value (req_Context (with_claims r c)) k = ctx_Value (req_Context r) k"
      by (simp add: with_claims_def)
    moreover have "nxt (with_claims r c) w1 = (out, w')"
      using assms True t trim v Inr by (simp add: RequireAuth_def)
    ultimately show ?thesis using t v Inr by blast
  qed
qed

definition anonymous :: request where
  "anonymous = \<lparr>req_Method = ''DELETE'', req_Path = ''/godev'', req_RawPath = [], req_RemoteAddr = ''10.0.0.1:4000'',
     req_Header = [], req_Body = [], req_Params = [], req_Context = Background\<rparr>"

theorem RequireAuth_guards_witness:
  "\<exists>msg. RequireAuth (Verify mini_Parse (\<lambda>_. 0) app7) (\<lambda>r w. (Responds (write_header 204), w)) anonymous () =
     (Responds (error_response 401 msg), ())"
proof -
  have run: "RequireAuth (Verify mini_Parse (\<lambda>_. 0) app7) (\<lambda>r w. (Responds (write_header 204), w)) anonymous () =
      (Responds (error_response 401 ''missing bearer token''), ())"
    by (simp add: RequireAuth_def anonymous_def Header_Get_def HasPrefix_def)
  from RequireAuth_guards [OF run] show ?thesis
    using run by (auto simp: anonymous_def Header_Get_def)
qed

end
