(* ===== verification/Auth_Handlers.thy ===== *)
theory Auth_Handlers
  imports Handlers Ssoclient
begin

text \<open>
  \<open>internal/transport/http/handlers/handlers.go\<close>: the handlers under \<open>/auth\<close>, which check
  their input and pass it on to sso. JSON decoding and \<open>mail.ParseAddress\<close> are parameters.
\<close>

section \<open>The handlers\<close>

definition maxAuthRequestBytes :: nat where
  "maxAuthRequestBytes = push_bit 20 1"

definition minPasswordLength :: nat where
  "minPasswordLength = 8"

record 'w AuthService =
  as_Register :: "ctx \<Rightarrow> string \<Rightarrow> string \<Rightarrow> ('w, go_error + uint64) io"
  as_Login :: "ctx \<Rightarrow> string \<Rightarrow> string \<Rightarrow> ('w, go_error + string \<times> string) io"
  as_RefreshTokens :: "ctx \<Rightarrow> string \<Rightarrow> ('w, go_error + string \<times> string) io"
  as_Logout :: "ctx \<Rightarrow> string \<Rightarrow> ('w, go_error option) io"

record 'w AuthHandler =
  ah_sso :: "'w AuthService"

definition NewAuth :: "'w AuthService \<Rightarrow> 'w AuthHandler" where
  "NewAuth sso = \<lparr>ah_sso = sso\<rparr>"

record registerRequest =
  rr_Email :: string
  rr_Password :: string

record loginRequest =
  lr_Email :: string
  lr_Password :: string

record refreshRequest =
  fr_RefreshToken :: string

definition tokenResponse :: "string \<Rightarrow> string \<Rightarrow> payload" where
  "tokenResponse access refresh = PTokens response_Ok access refresh"

definition validateEmail :: "(string \<Rightarrow> bool) \<Rightarrow> string \<Rightarrow> string option" where
  "validateEmail ParseAddress_ok email =
     (if email = [] then Some ''email is required''
      else if \<not> ParseAddress_ok email then Some ''email must be a valid address''
      else None)"

definition AuthHandler_Register ::
  "(string \<Rightarrow> bool) \<Rightarrow> (body_reader \<Rightarrow> go_error + registerRequest) \<Rightarrow> 'w AuthHandler \<Rightarrow> 'w handler" where
  "AuthHandler_Register ParseAddress_ok DecodeJSON h r w =
     (case DecodeJSON (MaxBytesReader (req_Body r) maxAuthRequestBytes) of
        Inl err \<Rightarrow> (Responds (error_response StatusBadRequest ''failed to decode request''), w)
      | Inr req \<Rightarrow>
          (case validateEmail ParseAddress_ok (rr_Email req) of
             Some msg \<Rightarrow> (Responds (error_response StatusBadRequest msg), w)
           | None \<Rightarrow>
               if length (rr_Password req) < minPasswordLength
               then (Responds (error_response StatusBadRequest
                      (''password must be at least '' @ show_nat minPasswordLength @ '' characters'')), w)
               else (case as_Register (ah_sso h) (req_Context r) (rr_Email req) (rr_Password req) w of
                       (Inl err, w') \<Rightarrow>
                         (Responds (if errors_Is err ErrUserExists
                            then error_response StatusConflict ''user already exists''
                            else error_response StatusInternalServerError ''failed to register''), w')
                     | (Inr _, w') \<Rightarrow> (Responds (Respond StatusCreated (PResponse response_Ok)), w'))))"

definition AuthHandler_Login ::
  "(string \<Rightarrow> bool) \<Rightarrow> (body_reader \<Rightarrow> go_error + loginRequest) \<Rightarrow> 'w AuthHandler \<Rightarrow> 'w handler" where
  "AuthHandler_Login ParseAddress_ok DecodeJSON h r w =
     (case DecodeJSON (MaxBytesReader (req_Body r) maxAuthRequestBytes) of
        Inl err \<Rightarrow> (Responds (error_response StatusBadRequest ''failed to decode request''), w)
      | Inr req \<Rightarrow>
          (case validateEmail ParseAddress_ok (lr_Email req) of
             Some msg \<Rightarrow> (Responds (error_response StatusBadRequest msg), w)
           | None \<Rightarrow>
               if lr_Password req = []
               then (Responds (error_response StatusBadRequest ''password is required''), w)
               else (case as_Login (ah_sso h) (req_Context r) (lr_Email req) (lr_Password req) w of
                       (Inl err, w') \<Rightarrow>
                         (Responds (if errors_Is err ErrInvalidCredentials
                            then error_response StatusUnauthorized ''invalid email or password''
                            else error_response StatusInternalServerError ''failed to login''), w')
                     | (Inr (access, refresh), w') \<Rightarrow>
                         (Responds (Respond StatusOK (tokenResponse access refresh)), w'))))"

definition AuthHandler_Refresh ::
  "(body_reader \<Rightarrow> go_error + refreshRequest) \<Rightarrow> 'w AuthHandler \<Rightarrow> 'w handler" where
  "AuthHandler_Refresh DecodeJSON h r w =
     (case DecodeJSON (MaxBytesReader (req_Body r) maxAuthRequestBytes) of
        Inl err \<Rightarrow> (Responds (error_response StatusBadRequest ''refresh_token is required''), w)
      | Inr req \<Rightarrow>
          if fr_RefreshToken req = []
          then (Responds (error_response StatusBadRequest ''refresh_token is required''), w)
          else (case as_RefreshTokens (ah_sso h) (req_Context r) (fr_RefreshToken req) w of
                  (Inl err, w') \<Rightarrow>
                    (Responds (if errors_Is err ErrRefreshInvalid
                       then error_response StatusUnauthorized ''refresh token invalid or expired''
                       else error_response StatusInternalServerError ''failed to refresh''), w')
                | (Inr (access, refresh), w') \<Rightarrow>
                    (Responds (Respond StatusOK (tokenResponse access refresh)), w')))"

definition AuthHandler_Logout ::
  "(body_reader \<Rightarrow> go_error + refreshRequest) \<Rightarrow> 'w AuthHandler \<Rightarrow> 'w handler" where
  "AuthHandler_Logout DecodeJSON h r w =
     (case DecodeJSON (MaxBytesReader (req_Body r) maxAuthRequestBytes) of
        Inl err \<Rightarrow> (Responds (error_response StatusBadRequest ''refresh_token is required''), w)
      | Inr req \<Rightarrow>
          if fr_RefreshToken req = []
          then (Responds (error_response StatusBadRequest ''refresh_token is required''), w)
          else (case as_Logout (ah_sso h) (req_Context r) (fr_RefreshToken req) w of
                  (Some err, w') \<Rightarrow> (Responds (error_response StatusInternalServerError ''failed to logout''), w')
                | (None, w') \<Rightarrow> (Responds (write_header StatusNoContent), w')))"

section \<open>The client as the service\<close>

definition sso_service :: "'w runtime \<Rightarrow> (go_error \<Rightarrow> string) \<Rightarrow> ('w, 'c) Client \<Rightarrow> 'w AuthService" where
  "sso_service rt foreign c =
     \<lparr>as_Register = Client_Register rt foreign c, as_Login = Client_Login rt foreign c,
      as_RefreshTokens = Client_RefreshTokens rt foreign c, as_Logout = Client_Logout rt foreign c\<rparr>"

lemma sso_service_simps [simp]:
  "as_Register (sso_service rt f c) = Client_Register rt f c"
  "as_Login (sso_service rt f c) = Client_Login rt f c"
  "as_RefreshTokens (sso_service rt f c) = Client_RefreshTokens rt f c"
  "as_Logout (sso_service rt f c) = Client_Logout rt f c"
  "ah_sso (NewAuth sso) = sso"
  by (simp_all add: sso_service_def NewAuth_def)




section \<open>Well-formed input\<close>

definition auth_body :: "request \<Rightarrow> body_reader" where
  "auth_body r = MaxBytesReader (req_Body r) maxAuthRequestBytes"

definition register_input ::
  "(string \<Rightarrow> bool) \<Rightarrow> (body_reader \<Rightarrow> go_error + registerRequest) \<Rightarrow> request \<Rightarrow> registerRequest \<Rightarrow> bool" where
  "register_input P dec r req \<longleftrightarrow> dec (auth_body r) = Inr req \<and> rr_Email req \<noteq> [] \<and> P (rr_Email req) \<and>
     8 \<le> length (rr_Password req)"

definition login_input ::
  "(string \<Rightarrow> bool) \<Rightarrow> (body_reader \<Rightarrow> go_error + loginRequest) \<Rightarrow> request \<Rightarrow> loginRequest \<Rightarrow> bool" where
  "login_input P dec r req \<longleftrightarrow> dec (auth_body r) = Inr req \<and> lr_Email req \<noteq> [] \<and> P (lr_Email req) \<and>
     lr_Password req \<noteq> []"

definition refresh_input :: "(body_reader \<Rightarrow> go_error + refreshRequest) \<Rightarrow> request \<Rightarrow> refreshRequest \<Rightarrow> bool" where
  "refresh_input dec r req \<longleftrightarrow> dec (auth_body r) = Inr req \<and> fr_RefreshToken req \<noteq> []"

lemma Register_input:
  "register_input P dec r req \<Longrightarrow> AuthHandler_Register P dec h r w =
     (case as_Register (ah_sso h) (req_Context r) (rr_Email req) (rr_Password req) w of
        (Inl err, w') \<Rightarrow> (Responds (if errors_Is err ErrUserExists then error_response 409 ''user already exists''
                            else error_response 500 ''failed to register''), w')
      | (Inr _, w') \<Rightarrow> (Responds (Respond 201 (PResponse response_Ok)), w'))"
  by (simp add: AuthHandler_Register_def register_input_def auth_body_def validateEmail_def minPasswordLength_def)

lemma Register_rejects:
  "\<nexists>req. register_input P dec r req \<Longrightarrow> \<exists>msg. AuthHandler_Register P dec h r w = (Responds (error_response 400 msg), w)"
  by (auto simp: AuthHandler_Register_def register_input_def auth_body_def validateEmail_def minPasswordLength_def
      split: sum.splits)

lemma Login_input:
  "login_input P dec r req \<Longrightarrow> AuthHandler_Login P dec h r w =
     (case as_Login (ah_sso h) (req_Context r) (lr_Email req) (lr_Password req) w of
        (Inl err, w') \<Rightarrow> (Responds (if errors_Is err ErrInvalidCredentials
                            then error_response 401 ''invalid email or password''
                            else error_response 500 ''failed to login''), w')
      | (Inr (a, t), w') \<Rightarrow> (Responds (Respond 200 (tokenResponse a t)), w'))"
  by (simp add: AuthHandler_Login_def login_input_def auth_body_def validateEmail_def)

lemma Login_rejects:
  "\<nexists>req. login_input P dec r req \<Longrightarrow> \<exists>msg. AuthHandler_Login P dec h r w = (Responds (error_response 400 msg), w)"
  by (auto simp: AuthHandler_Login_def login_input_def auth_body_def validateEmail_def split: sum.splits)

lemma Refresh_input:
  "refresh_input dec r req \<Longrightarrow> AuthHandler_Refresh dec h r w =
     (case as_RefreshTokens (ah_sso h) (req_Context r) (fr_RefreshToken req) w of
        (Inl err, w') \<Rightarrow> (Responds (if errors_Is err ErrRefreshInvalid
                            then error_response 401 ''refresh token invalid or expired''
                            else error_response 500 ''failed to refresh''), w')
      | (Inr (a, t), w') \<Rightarrow> (Responds (Respond 200 (tokenResponse a t)), w'))"
  by (simp add: AuthHandler_Refresh_def refresh_input_def auth_body_def)

lemma Refresh_rejects:
  "\<nexists>req. refresh_input dec r req \<Longrightarrow> \<exists>msg. AuthHandler_Refresh dec h r w = (Responds (error_response 400 msg), w)"
  by (auto simp: AuthHandler_Refresh_def refresh_input_def auth_body_def split: sum.splits)

lemma Logout_input:
  "refresh_input dec r req \<Longrightarrow> AuthHandler_Logout dec h r w =
     (case as_Logout (ah_sso h) (req_Context r) (fr_RefreshToken req) w of
        (Some err, w') \<Rightarrow> (Responds (error_response 500 ''failed to logout''), w')
      | (None, w') \<Rightarrow> (Responds (write_header 204), w'))"
  by (simp add: AuthHandler_Logout_def refresh_input_def auth_body_def)

lemma Logout_rejects:
  "\<nexists>req. refresh_input dec r req \<Longrightarrow> \<exists>msg. AuthHandler_Logout dec h r w = (Responds (error_response 400 msg), w)"
  by (auto simp: AuthHandler_Logout_def refresh_input_def auth_body_def split: sum.splits)

lemma not_400:
  "c \<noteq> 400 \<Longrightarrow> Respond c p \<noteq> error_response 400 m"
  "c \<noteq> 400 \<Longrightarrow> error_response c n \<noteq> error_response 400 m"
  "write_header 204 \<noteq> error_response 400 m"
  by (simp_all add: error_response_def Respond_def write_header_def)

text \<open>A handler that refuses bad input with 400, and no good input.\<close>

lemma checked_handler:
  assumes "\<nexists>req. good req \<Longrightarrow> \<exists>msg. run = (Responds (error_response 400 msg), w)"
    and "\<And>req msg w'. good req \<Longrightarrow> run \<noteq> (Responds (error_response 400 msg), w')"
  shows "\<forall>out w'. run = (out, w') \<longrightarrow>
    ((\<exists>msg. out = Responds (error_response 400 msg)) \<longleftrightarrow> (\<nexists>req. good req)) \<and> ((\<nexists>req. good req) \<longrightarrow> w' = w)"
  using assms by fastforce

section \<open>Properties\<close>

text \<open>
  C36. Bad input stays here: the four handlers answer 400 exactly when the body does not decode
  within its first mebibyte or lacks a field (a valid email and eight bytes of password to
  register, a valid email and a password to log in, a refresh token otherwise), and then nothing
  happens in the world: sso is not called.
\<close>

theorem auth_input_checked:
  "(\<forall>out w'. AuthHandler_Register P decR h r w = (out, w') \<longrightarrow>
      ((\<exists>msg. out = Responds (error_response 400 msg)) \<longleftrightarrow> (\<nexists>req. register_input P decR r req)) \<and>
      ((\<nexists>req. register_input P decR r req) \<longrightarrow> w' = w)) \<and>
   (\<forall>out w'. AuthHandler_Login P decL h r w = (out, w') \<longrightarrow>
      ((\<exists>msg. out = Responds (error_response 400 msg)) \<longleftrightarrow> (\<nexists>req. login_input P decL r req)) \<and>
      ((\<nexists>req. login_input P decL r req) \<longrightarrow> w' = w)) \<and>
   (\<forall>out w'. AuthHandler_Refresh decF h r w = (out, w') \<longrightarrow>
      ((\<exists>msg. out = Responds (error_response 400 msg)) \<longleftrightarrow> (\<nexists>req. refresh_input decF r req)) \<and>
      ((\<nexists>req. refresh_input decF r req) \<longrightarrow> w' = w)) \<and>
   (\<forall>out w'. AuthHandler_Logout decF h r w = (out, w') \<longrightarrow>
      ((\<exists>msg. out = Responds (error_response 400 msg)) \<longleftrightarrow> (\<nexists>req. refresh_input decF r req)) \<and>
      ((\<nexists>req. refresh_input decF r req) \<longrightarrow> w' = w))"
  by (intro conjI checked_handler Register_rejects Login_rejects Refresh_rejects Logout_rejects)
    (auto simp: Register_input Login_input Refresh_input Logout_input not_400
      split: prod.splits sum.splits option.splits if_splits)

text \<open>Decoders and requests for the witnesses: the fields separated by a space.\<close>

definition dec_register :: "body_reader \<Rightarrow> go_error + registerRequest" where
  "dec_register b = (let (e, p) = Cut (fst b) (CHR '' '') in Inr \<lparr>rr_Email = e, rr_Password = p\<rparr>)"

definition dec_login :: "body_reader \<Rightarrow> go_error + loginRequest" where
  "dec_login b = (let (e, p) = Cut (fst b) (CHR '' '') in Inr \<lparr>lr_Email = e, lr_Password = p\<rparr>)"

definition dec_refresh :: "body_reader \<Rightarrow> go_error + refreshRequest" where
  "dec_refresh b = Inr \<lparr>fr_RefreshToken = fst b\<rparr>"

definition auth_request :: "string \<Rightarrow> request" where
  "auth_request bdy = \<lparr>req_Method = ''POST'', req_Path = ''/auth/login'', req_RawPath = [], req_RemoteAddr = ''10.0.0.1:4000'',
     req_Header = [], req_Body = bdy, req_Params = [], req_Context = Background\<rparr>"

definition sso_client :: "(conn_world, nat) Client" where
  "sso_client = \<lparr>cl_conn = 0, cl_api = offline_api (0 :: nat), cl_appID = 7\<rparr>"

definition sso_handler :: "conn_world AuthHandler" where
  "sso_handler = NewAuth (sso_service script_rt (\<lambda>_. []) sso_client)"

theorem auth_input_checked_witness:
  "\<exists>msg. AuthHandler_Register (\<lambda>_. True) dec_register sso_handler (auth_request ''root@localhost short'') ([], {}) =
     (Responds (error_response 400 msg), ([], {}))"
proof -
  let ?r = "auth_request ''root@localhost short''"
  have "\<nexists>req. register_input (\<lambda>_. True) dec_register ?r req"
    by (auto simp: register_input_def dec_register_def auth_body_def auth_request_def MaxBytesReader_def
        maxAuthRequestBytes_def Cut_def)
  moreover obtain out w' where run: "AuthHandler_Register (\<lambda>_. True) dec_register sso_handler ?r ([], {}) = (out, w')"
    by (metis surj_pair)
  ultimately show ?thesis
    using auth_input_checked [of "\<lambda>_. True" dec_register sso_handler ?r "([], {})" dec_login dec_refresh,
        THEN conjunct1, rule_format, OF run] by blast
qed



lemma offline_simps [simp]:
  "api_Register (offline_api conn) x e p w = (Inl (StatusError (OtherCode 14) ''unavailable''), w)"
  "api_Authenticate (offline_api conn) x e p a w = (Inl (StatusError (OtherCode 14) ''unavailable''), w)"
  "api_RefreshTokens (offline_api conn) x t a w = (Inl (StatusError (OtherCode 14) ''unavailable''), w)"
  "api_Logout (offline_api conn) x t w = (Some (StatusError (OtherCode 14) ''unavailable''), w)"
  by (simp_all add: offline_api_def)


end
