(* ===== verification/Router.thy ===== *)
theory Router
  imports Ratelimit Authn Auth_Handlers
begin

text \<open>
  \<open>internal/transport/http/router.go\<close> and the middleware it mounts: \<open>reqid.Propagate\<close>, the
  request logger, and \<open>pkg/logger/sl\<close>. A router is the list of its middlewares and the table
  of its routes; the matching of chi, its \<open>RequestID\<close> and its \<open>Recoverer\<close> are parameters,
  with their documented behaviour as the locale \<open>chi_library\<close>.
\<close>

section \<open>\<open>pkg/logger/sl\<close>\<close>

text \<open>A logger is the attributes it adds to every entry.\<close>

type_synonym attrs = "(string \<times> string) list"

definition sl_Err :: "(go_error \<Rightarrow> string) \<Rightarrow> go_error option \<Rightarrow> attrs" where
  "sl_Err foreign err = (case err of None \<Rightarrow> [] | Some e \<Rightarrow> [(''error'', err_Error foreign e)])"

definition LoggerWithCtx :: "ctx \<Rightarrow> attrs \<Rightarrow> attrs" where
  "LoggerWithCtx ctx logger =
     (case ctx_Value ctx RequestIDKey of
        Some (VString reqID) \<Rightarrow> logger @ [(''request_id'', reqID)]
      | _ \<Rightarrow> logger)"

section \<open>Middleware\<close>

type_synonym 'w middleware = "'w handler \<Rightarrow> 'w handler"

text \<open>\<open>middleware.GetReqID\<close> of chi.\<close>

definition GetReqID :: "ctx \<Rightarrow> string" where
  "GetReqID ctx = (case ctx_Value ctx ChiRequestIDKey of Some (VString s) \<Rightarrow> s | _ \<Rightarrow> [])"

definition Propagate :: "'w middleware" where
  "Propagate nxt r w =
     (let reqID = GetReqID (req_Context r) in
      if reqID \<noteq> []
      then nxt (r\<lparr>req_Context := WithValue (req_Context r) RequestIDKey (VString reqID)\<rparr>) w
      else nxt r w)"

text \<open>
  The status the wrapped writer reports is 0 when nothing was written. The deferred function also
  runs when the handler panics, and never when it does not return.
\<close>

definition written_status :: "handled \<Rightarrow> nat" where
  "written_status out = (case out of Responds resp \<Rightarrow> hr_status resp | _ \<Rightarrow> 0)"

definition log_choice :: "nat \<Rightarrow> log_level \<times> string" where
  "log_choice status =
     (if 500 \<le> status then (LError, ''request failed'')
      else if 400 \<le> status then (LWarn, ''request error'')
      else (LInfo, ''request completed''))"

definition request_attrs :: "request \<Rightarrow> attrs" where
  "request_attrs r =
     [(''method'', req_Method r), (''path'', req_Path r), (''remote_addr'', req_RemoteAddr r),
      (''user_agent'', Header_Get r ''User-Agent'')] @
     (if GetReqID (req_Context r) \<noteq> [] then [(''request_id'', GetReqID (req_Context r))] else [])"

definition logger_New :: "(log_level \<Rightarrow> string \<Rightarrow> attrs \<Rightarrow> nat \<Rightarrow> 'w \<Rightarrow> 'w) \<Rightarrow> 'w middleware" where
  "logger_New emit nxt r w =
     (if req_Path r = ''/health'' then nxt r w
      else (case nxt r w of (out, w') \<Rightarrow>
              (out, if out = Hangs then w'
                    else (case log_choice (written_status out) of (level, msg) \<Rightarrow>
                            emit level msg (request_attrs r) (written_status out) w'))))"

section \<open>The router\<close>

text \<open>
  A router has its middlewares and its routes, and a mounted router its own. The outcome of chi's
  matching is a route with the parameters it binds, a mount with the rest of the path, or neither.
\<close>

record 'w Subrouter =
  mux_use :: "'w middleware list"
  mux_routes :: "(string \<times> string \<times> 'w handler) list"

record 'w Mux = "'w Subrouter" +
  mux_mounts :: "(string \<times> 'w Subrouter) list"

datatype chi_match =
    Found nat "(string \<times> string) list"
  | Mounted nat string "(string \<times> string) list"
  | RouteNotFound
  | MethodNotAllowed

type_synonym chi_find = "string list \<Rightarrow> (string \<times> string) list \<Rightarrow> string \<Rightarrow> string \<Rightarrow> chi_match"

definition route_table :: "('w, 'z) Subrouter_scheme \<Rightarrow> (string \<times> string) list" where
  "route_table m = map (\<lambda>(meth, pat, h). (meth, pat)) (mux_routes m)"

definition use_all :: "'w middleware list \<Rightarrow> 'w middleware" where
  "use_all mws h = foldr (\<lambda>mw h. mw h) mws h"

text \<open>The path that is matched: the encoded one where the request has it.\<close>

definition route_path :: "request \<Rightarrow> string" where
  "route_path r =
     (let path = (if req_RawPath r \<noteq> [] then req_RawPath r else req_Path r)
      in if path = [] then ''/'' else path)"

text \<open>A mounted router matches its routes against the rest of the path.\<close>

definition sub_dispatch :: "chi_find \<Rightarrow> ('w, 'z) Subrouter_scheme \<Rightarrow> string \<Rightarrow> 'w handler" where
  "sub_dispatch chi m path r w =
     (case chi [] (route_table m) (req_Method r) path of
        Found i ps \<Rightarrow> snd (snd (mux_routes m ! i)) (r\<lparr>req_Params := req_Params r @ ps\<rparr>) w
      | MethodNotAllowed \<Rightarrow> (Responds (write_header 405), w)
      | _ \<Rightarrow> (Responds (write_text StatusNotFound ''404 page not found''), w))"

text \<open>The middlewares of a mounted router run before it looks for a route.\<close>

definition mux_dispatch :: "chi_find \<Rightarrow> 'w Mux \<Rightarrow> 'w handler" where
  "mux_dispatch chi m r w =
     (case chi (map fst (mux_mounts m)) (route_table m) (req_Method r) (route_path r) of
        Found i ps \<Rightarrow> snd (snd (mux_routes m ! i)) (r\<lparr>req_Params := ps\<rparr>) w
      | Mounted j path ps \<Rightarrow>
          (let sub = snd (mux_mounts m ! j)
           in use_all (mux_use sub) (sub_dispatch chi sub path) (r\<lparr>req_Params := ps\<rparr>) w)
      | RouteNotFound \<Rightarrow> (Responds (write_text StatusNotFound ''404 page not found''), w)
      | MethodNotAllowed \<Rightarrow> (Responds (write_header 405), w))"

definition ServeHTTP :: "chi_find \<Rightarrow> 'w Mux \<Rightarrow> 'w handler" where
  "ServeHTTP chi m = use_all (mux_use m) (mux_dispatch chi m)"

text \<open>
  The world of the running server: the two limiters, which the closures of \<open>NewRouter\<close> hold, and
  the rest.
\<close>

record 'w web =
  web_auth :: Limiter
  web_write :: Limiter
  web_rest :: 'w

definition web_lift :: "'w handler \<Rightarrow> 'w web handler" where
  "web_lift h r s = (case h r (web_rest s) of (out, w) \<Rightarrow> (out, s\<lparr>web_rest := w\<rparr>))"

definition web_call :: "('a \<Rightarrow> ('w, 'b) io) \<Rightarrow> 'a \<Rightarrow> ('w web, 'b) io" where
  "web_call f x s = (case f x (web_rest s) of (y, w) \<Rightarrow> (y, s\<lparr>web_rest := w\<rparr>))"

definition web_runtime :: "'w runtime \<Rightarrow> 'w web runtime" where
  "web_runtime rt =
     \<lparr>time_Now = (\<lambda>s. case time_Now rt (web_rest s) of (t, w) \<Rightarrow> (t, s\<lparr>web_rest := w\<rparr>)),
      ctx_Err = (\<lambda>x. web_call (ctx_Err rt) x)\<rparr>"

definition auth_limit :: "(rat \<Rightarrow> rat) \<Rightarrow> 'w runtime \<Rightarrow> 'w web middleware" where
  "auth_limit fl rt = Limiter_Middleware fl (web_runtime rt) web_auth (\<lambda>l s. s\<lparr>web_auth := l\<rparr>)"

definition write_limit :: "(rat \<Rightarrow> rat) \<Rightarrow> 'w runtime \<Rightarrow> 'w web middleware" where
  "write_limit fl rt = Limiter_Middleware fl (web_runtime rt) web_write (\<lambda>l s. s\<lparr>web_write := l\<rparr>)"

text \<open>What \<open>NewRouter\<close> is given, and the middlewares it takes from chi.\<close>

record 'w site =
  site_RequestID :: "'w web middleware"
  site_Recoverer :: "'w web middleware"
  site_emit :: "log_level \<Rightarrow> string \<Rightarrow> attrs \<Rightarrow> nat \<Rightarrow> 'w web \<Rightarrow> 'w web"
  site_save :: "'w handler"
  site_get :: "'w handler"
  site_delete :: "'w handler"
  site_register :: "'w handler"
  site_login :: "'w handler"
  site_refresh :: "'w handler"
  site_logout :: "'w handler"
  site_verify :: "string \<Rightarrow> ('w, go_error + Claims) io"
  site_probe :: "'w handler"

definition NewRouter :: "(rat \<Rightarrow> rat) \<Rightarrow> 'w runtime \<Rightarrow> 'w site \<Rightarrow> 'w web Mux" where
  "NewRouter fl rt st =
     (let guard = (\<lambda>h. use_all [RequireAuth (web_call (site_verify st)), write_limit fl rt] h)
      in \<lparr>mux_use = [site_RequestID st, Propagate, logger_New (site_emit st), site_Recoverer st],
          mux_routes =
            [(''GET'', ''/{alias}'', web_lift (site_get st)),
             (''POST'', ''/url'', guard (web_lift (site_save st))),
             (''DELETE'', ''/{alias}'', guard (web_lift (site_delete st))),
             (''GET'', ''/healthz'', web_lift (site_probe st))],
          mux_mounts =
            [(''/auth'',
              \<lparr>mux_use = [auth_limit fl rt],
               mux_routes =
                 [(''POST'', ''/register'', web_lift (site_register st)),
                  (''POST'', ''/login'', web_lift (site_login st)),
                  (''POST'', ''/refresh'', web_lift (site_refresh st)),
                  (''POST'', ''/logout'', web_lift (site_logout st))]\<rparr>)]\<rparr>)"

definition NewRouter_start :: "'w \<Rightarrow> 'w web" where
  "NewRouter_start w = \<lparr>web_auth = authLimiter, web_write = writeLimiter, web_rest = w\<rparr>"

section \<open>What the router relies on\<close>

text \<open>
  A plain pattern, without parameters, matches itself; \<open>/{alias}\<close> matches one segment that is
  not empty and binds it.
\<close>

definition plain :: "string \<Rightarrow> bool" where
  "plain pat \<longleftrightarrow> CHR ''{'' \<notin> set pat \<and> CHR ''*'' \<notin> set pat"

definition known_pattern :: "string \<Rightarrow> bool" where
  "known_pattern pat \<longleftrightarrow> plain pat \<or> pat = ''/{alias}''"

definition pattern_matches :: "string \<Rightarrow> string \<Rightarrow> (string \<times> string) list \<Rightarrow> bool" where
  "pattern_matches pat path ps =
     (if pat = ''/{alias}''
      then HasPrefix path ''/'' \<and> tl path \<noteq> [] \<and> CHR ''/'' \<notin> set (tl path) \<and> ps = [(''alias'', tl path)]
      else path = pat \<and> ps = [])"

text \<open>The paths that belong to a mount, and what the mounted router sees of them.\<close>

definition at_or_below :: "string \<Rightarrow> string \<Rightarrow> bool" where
  "at_or_below mp path \<longleftrightarrow> path = mp \<or> HasPrefix path (mp @ ''/'')"

definition path_below :: "string \<Rightarrow> string \<Rightarrow> string" where
  "path_below mp path = (if path = mp then ''/'' else drop (length mp) path)"

definition chi_methods :: "string list" where
  "chi_methods = [''CONNECT'', ''DELETE'', ''GET'', ''HEAD'', ''OPTIONS'', ''PATCH'', ''POST'', ''PUT'', ''TRACE'']"

text \<open>
  chi: a found route has the method and a matching pattern; a plain route that no mount covers is
  found by its own path; of a request with one of chi's methods, everything at and below a mount
  goes to the mounted router, parameters but the wildcard of the mount unbound. \<open>RequestID\<close> adds
  an id to the context. \<open>Recoverer\<close> ends a panic, and answers it with 500 unless the connection
  is being upgraded; it panics again with \<open>http.ErrAbortHandler\<close>.
\<close>

locale chi_library =
  fixes chi :: chi_find and RequestID :: "'w middleware" and Recoverer :: "'w middleware"
  assumes found: "list_all known_pattern (map snd rs) \<Longrightarrow> chi ms rs m path = Found i ps \<Longrightarrow>
      i < length rs \<and> fst (rs ! i) = m \<and> pattern_matches (snd (rs ! i)) path ps"
    and static_found: "list_all plain ms \<Longrightarrow> list_all known_pattern (map snd rs) \<Longrightarrow>
      (m, path) \<in> set rs \<Longrightarrow> plain path \<Longrightarrow> \<not> list_ex (\<lambda>mp. at_or_below mp path) ms \<Longrightarrow>
      \<exists>i. chi ms rs m path = Found i [] \<and> rs ! i = (m, path)"
    and mounted: "plain mp \<Longrightarrow> list_all known_pattern (map snd rs) \<Longrightarrow>
      \<not> list_ex (at_or_below mp) (map snd rs) \<Longrightarrow> m \<in> set chi_methods \<Longrightarrow> at_or_below mp path \<Longrightarrow>
      \<exists>ps. chi [mp] rs m path = Mounted 0 (path_below mp path) ps"
    and mounted_below: "list_all plain ms \<Longrightarrow> chi ms rs m path = Mounted j rest ps \<Longrightarrow>
      j < length ms \<and> at_or_below (ms ! j) path \<and> rest = path_below (ms ! j) path \<and> fst ` set ps \<subseteq> {''*''}"
    and request_id: "\<exists>reqID. RequestID nxt r w =
      nxt (r\<lparr>req_Context := WithValue (req_Context r) ChiRequestIDKey (VString reqID)\<rparr>) w"
    and recovers: "Recoverer nxt r w =
      (case nxt r w of
         (Panics m, w') \<Rightarrow>
           (if Header_Get r ''Connection'' = ''Upgrade'' then Unwritten else Responds (write_header 500), w')
       | res \<Rightarrow> res)"

text \<open>What the middlewares leave of a request.\<close>

definition same_request :: "request \<Rightarrow> request \<Rightarrow> bool" where
  "same_request r r' \<longleftrightarrow> req_Method r' = req_Method r \<and> req_Path r' = req_Path r \<and>
     req_RawPath r' = req_RawPath r \<and>
     req_RemoteAddr r' = req_RemoteAddr r \<and> req_Header r' = req_Header r \<and> req_Body r' = req_Body r \<and>
     ctx_deadline (req_Context r') = ctx_deadline (req_Context r)"

lemma same_request_route: "same_request r r' \<Longrightarrow> route_path r' = route_path r"
  by (simp add: same_request_def route_path_def)

lemma same_request_Header: "same_request r r' \<Longrightarrow> Header_Get r' k = Header_Get r k"
  by (simp add: same_request_def Header_Get_def)

definition recovered :: "request \<Rightarrow> handled \<Rightarrow> handled" where
  "recovered r out =
     (case out of
        Panics m \<Rightarrow> if Header_Get r ''Connection'' = ''Upgrade'' then Unwritten else Responds (write_header 500)
      | _ \<Rightarrow> out)"

definition auth_router :: "(rat \<Rightarrow> rat) \<Rightarrow> 'w runtime \<Rightarrow> 'w site \<Rightarrow> 'w web Subrouter" where
  "auth_router fl rt st = snd (hd (mux_mounts (NewRouter fl rt st)))"

lemma auth_router_eq:
  "auth_router fl rt st =
     \<lparr>mux_use = [auth_limit fl rt],
      mux_routes =
        [(''POST'', ''/register'', web_lift (site_register st)), (''POST'', ''/login'', web_lift (site_login st)),
         (''POST'', ''/refresh'', web_lift (site_refresh st)), (''POST'', ''/logout'', web_lift (site_logout st))]\<rparr>"
  by (simp add: auth_router_def NewRouter_def Let_def)

lemma NewRouter_simps [simp]:
  "mux_use (NewRouter fl rt st) = [site_RequestID st, Propagate, logger_New (site_emit st), site_Recoverer st]"
  "mux_mounts (NewRouter fl rt st) = [(''/auth'', auth_router fl rt st)]"
  "route_table (NewRouter fl rt st) =
     [(''GET'', ''/{alias}''), (''POST'', ''/url''), (''DELETE'', ''/{alias}''), (''GET'', ''/healthz'')]"
  "route_table (auth_router fl rt st) =
     [(''POST'', ''/register''), (''POST'', ''/login''), (''POST'', ''/refresh''), (''POST'', ''/logout'')]"
  by (simp_all add: auth_router_eq NewRouter_def route_table_def Let_def)

lemma NewRouter_patterns [simp]:
  "known_pattern ''/{alias}''" "known_pattern ''/url''" "known_pattern ''/healthz''"
  "known_pattern ''/register''" "known_pattern ''/login''" "known_pattern ''/refresh''" "known_pattern ''/logout''"
  "plain ''/auth''" "plain ''/healthz''"
  "\<not> at_or_below ''/auth'' ''/{alias}''" "\<not> at_or_below ''/auth'' ''/url''"
  "\<not> at_or_below ''/auth'' ''/healthz''"
  by code_simp+

lemma Propagate_request: "\<exists>r'. same_request r r' \<and> Propagate nxt r w = nxt r' w"
  by (auto simp: Propagate_def Let_def same_request_def intro: exI [of _ r]
      exI [of _ "r\<lparr>req_Context := WithValue (req_Context r) RequestIDKey (VString (GetReqID (req_Context r)))\<rparr>"])

lemma ServeHTTP_NewRouter:
  assumes "chi_library chi (site_RequestID st) (site_Recoverer st)"
    and "ServeHTTP chi (NewRouter fl rt st) r w = (out, w')"
  obtains r' d w1 where "same_request r r'" "mux_dispatch chi (NewRouter fl rt st) r' w = (d, w1)"
    "out = recovered r d"
    "w' = (if req_Path r = ''/health'' \<or> d = Hangs then w1
           else (case log_choice (written_status out) of (level, msg) \<Rightarrow>
                   site_emit st level msg (request_attrs r') (written_status out) w1))"
proof -
  let ?d = "mux_dispatch chi (NewRouter fl rt st)"
  let ?lg = "logger_New (site_emit st) (site_Recoverer st ?d)"
  obtain q where "ServeHTTP chi (NewRouter fl rt st) r w =
      Propagate ?lg (r\<lparr>req_Context := WithValue (req_Context r) ChiRequestIDKey (VString q)\<rparr>) w"
    using chi_library.request_id [OF assms(1), of "Propagate ?lg" r w] by (auto simp: ServeHTTP_def use_all_def)
  with Propagate_request [of "r\<lparr>req_Context := WithValue (req_Context r) ChiRequestIDKey (VString q)\<rparr>" ?lg w] assms(2)
  obtain r' where r': "same_request r r'" and lg: "?lg r' w = (out, w')"
    by (auto simp: same_request_def)
  obtain d w1 where d: "?d r' w = (d, w1)" by (metis surj_pair)
  have rec: "site_Recoverer st ?d r' w = (recovered r d, w1)"
    using d same_request_Header [OF r']
    by (simp add: chi_library.recovers [OF assms(1)] recovered_def split: handled.splits)
  have hangs: "recovered r d = Hangs \<longleftrightarrow> d = Hangs" by (cases d) (auto simp: recovered_def)
  from r' have path: "req_Path r' = req_Path r" by (simp add: same_request_def)
  from lg rec hangs path show thesis
    by (intro that [OF r' d]) (auto simp: logger_New_def split: if_splits prod.splits)
qed

section \<open>An executable router\<close>

definition chi_ref :: chi_find where
  "chi_ref ms rs m path =
     (case find (\<lambda>j. at_or_below (ms ! j) path) [0..<length ms] of
        Some j \<Rightarrow> Mounted j (path_below (ms ! j) path) (if path = ms ! j then [] else [(''*'', [])])
      | None \<Rightarrow>
          (case find (\<lambda>i. rs ! i = (m, path) \<and> path \<noteq> ''/{alias}'') [0..<length rs] of
             Some i \<Rightarrow> Found i []
           | None \<Rightarrow>
               (case find (\<lambda>i. rs ! i = (m, ''/{alias}'')) [0..<length rs] of
                  Some i \<Rightarrow>
                    if HasPrefix path ''/'' \<and> tl path \<noteq> [] \<and> CHR ''/'' \<notin> set (tl path)
                    then Found i [(''alias'', tl path)] else RouteNotFound
                | None \<Rightarrow> RouteNotFound)))"

definition ref_RequestID :: "'w middleware" where
  "ref_RequestID nxt r = nxt (r\<lparr>req_Context := WithValue (req_Context r) ChiRequestIDKey (VString ''req-1'')\<rparr>)"

definition ref_Recoverer :: "'w middleware" where
  "ref_Recoverer nxt r w = (case nxt r w of (out, w') \<Rightarrow> (recovered r out, w'))"

lemma find_index:
  "find P [0..<n] = Some i \<Longrightarrow> i < n \<and> P i"
  "i < n \<Longrightarrow> P i \<Longrightarrow> \<exists>j. find P [0..<n] = Some j"
proof -
  show "i < n \<and> P i" if "find P [0..<n] = Some i" using that by (auto simp: find_Some_iff)
  show "\<exists>j. find P [0..<n] = Some j" if "i < n" "P i"
    using that find_None_iff [of P "[0..<n]"] by (cases "find P [0..<n]") auto
qed

lemma chi_ref_found:
  assumes "chi_ref ms rs m path = Found i ps"
  shows "i < length rs \<and>
    (rs ! i = (m, path) \<and> path \<noteq> ''/{alias}'' \<and> ps = [] \<or>
     rs ! i = (m, ''/{alias}'') \<and>
       HasPrefix path ''/'' \<and> tl path \<noteq> [] \<and> CHR ''/'' \<notin> set (tl path) \<and> ps = [(''alias'', tl path)])"
  using assms by (auto simp: chi_ref_def split: if_splits option.splits dest!: find_index(1))

interpretation chi: chi_library chi_ref ref_RequestID ref_Recoverer
proof (unfold_locales, goal_cases)
  case (1 rs ms m path i ps)
  from chi_ref_found [OF 1(2)] show ?case by (auto simp: pattern_matches_def)
next
  case (2 ms rs m path)
  then obtain k where "k < length rs" "rs ! k = (m, path)" by (auto simp: in_set_conv_nth)
  moreover have "path \<noteq> ''/{alias}''" using 2(4) by (auto simp: plain_def)
  ultimately obtain j where j: "find (\<lambda>i. rs ! i = (m, path) \<and> path \<noteq> ''/{alias}'') [0..<length rs] = Some j"
    using find_index(2) [of k "length rs" "\<lambda>i. rs ! i = (m, path) \<and> path \<noteq> ''/{alias}''"] by auto
  have "find (\<lambda>j. at_or_below (ms ! j) path) [0..<length ms] = None"
    using 2(5) by (auto simp: find_None_iff list_ex_iff)
  with find_index(1) [OF j] j show ?case by (auto simp: chi_ref_def)
next
  case (3 mp rs m path) then show ?case by (auto simp: chi_ref_def)
next
  case (4 ms rs m path j rest ps)
  then show ?case by (auto simp: chi_ref_def split: option.splits if_splits dest: find_index(1))
next
  case (5 nxt r w) show ?case by (auto simp: ref_RequestID_def)
next
  case (6 nxt r w) show ?case by (auto simp: ref_Recoverer_def recovered_def split: prod.splits handled.splits)
qed

section \<open>The routes\<close>

definition guarded :: "(rat \<Rightarrow> rat) \<Rightarrow> 'w runtime \<Rightarrow> 'w site \<Rightarrow> 'w handler \<Rightarrow> 'w web handler" where
  "guarded fl rt st h = RequireAuth (web_call (site_verify st)) (write_limit fl rt (web_lift h))"

lemma NewRouter_routes:
  "mux_routes (NewRouter fl rt st) =
     [(''GET'', ''/{alias}'', web_lift (site_get st)),
      (''POST'', ''/url'', guarded fl rt st (site_save st)),
      (''DELETE'', ''/{alias}'', guarded fl rt st (site_delete st)),
      (''GET'', ''/healthz'', web_lift (site_probe st))]"
  by (simp add: NewRouter_def Let_def guarded_def use_all_def)

text \<open>Below \<open>/auth\<close>, after the limiter.\<close>

lemma auth_dispatch:
  assumes "chi_library chi RID REC" and "sub_dispatch chi (auth_router fl rt st) path r w = (out, w')"
  obtains (unmatched) resp where "out = Responds resp" "hr_status resp \<in> {404, 405}" "hr_location resp = None" "w' = w"
  | (auth) h where "h \<in> {site_register st, site_login st, site_refresh st, site_logout st}"
      "path \<in> {''/register'', ''/login'', ''/refresh'', ''/logout''}" "web_lift h r w = (out, w')"
proof (cases "chi [] (route_table (auth_router fl rt st)) (req_Method r) path")
  case (Found i ps)
  from chi_library.found [OF assms(1) _ this]
  have i: "i < 4" and p: "pattern_matches (snd (route_table (auth_router fl rt st) ! i)) path ps" by simp_all
  have run: "snd (snd (mux_routes (auth_router fl rt st) ! i)) (r\<lparr>req_Params := req_Params r @ ps\<rparr>) w = (out, w')"
    using assms(2) Found by (simp add: sub_dispatch_def)
  from i consider "i = 0" | "i = 1" | "i = 2" | "i = 3" by fastforce
  then show thesis
    using run p auth [of "site_register st"] auth [of "site_login st"] auth [of "site_refresh st"]
      auth [of "site_logout st"]
    by cases (simp_all add: auth_router_eq route_table_def pattern_matches_def)
qed (use assms(2) in \<open>auto simp: sub_dispatch_def write_text_def intro: unmatched\<close>)

lemma NewRouter_dispatch:
  assumes "chi_library chi RID REC" and "mux_dispatch chi (NewRouter fl rt st) r w = (out, w')"
  obtains (unmatched) resp where "out = Responds resp" "hr_status resp \<in> {404, 405}" "hr_location resp = None" "w' = w"
  | (auth) ps where "at_or_below ''/auth'' (route_path r)"
      "auth_limit fl rt (sub_dispatch chi (auth_router fl rt st) (path_below ''/auth'' (route_path r)))
         (r\<lparr>req_Params := ps\<rparr>) w = (out, w')"
  | (get) a where "req_Method r = ''GET''" "route_path r = CHR ''/'' # a"
      "web_lift (site_get st) (r\<lparr>req_Params := [(''alias'', a)]\<rparr>) w = (out, w')"
  | (save) "req_Method r = ''POST''" "route_path r = ''/url''"
      "guarded fl rt st (site_save st) (r\<lparr>req_Params := []\<rparr>) w = (out, w')"
  | (delete) a where "req_Method r = ''DELETE''" "route_path r = CHR ''/'' # a"
      "guarded fl rt st (site_delete st) (r\<lparr>req_Params := [(''alias'', a)]\<rparr>) w = (out, w')"
  | (probe) "req_Method r = ''GET''" "route_path r = ''/healthz''"
      "web_lift (site_probe st) (r\<lparr>req_Params := []\<rparr>) w = (out, w')"
proof (cases "chi [''/auth''] (route_table (NewRouter fl rt st)) (req_Method r) (route_path r)")
  case (Found i ps)
  from chi_library.found [OF assms(1) _ this]
  have i: "i < 4" and m: "fst (route_table (NewRouter fl rt st) ! i) = req_Method r"
    and p: "pattern_matches (snd (route_table (NewRouter fl rt st) ! i)) (route_path r) ps" by simp_all
  have run: "snd (snd (mux_routes (NewRouter fl rt st) ! i)) (r\<lparr>req_Params := ps\<rparr>) w = (out, w')"
    using assms(2) Found by (simp add: mux_dispatch_def)
  from i consider "i = 0" | "i = 1" | "i = 2" | "i = 3" by fastforce
  then show thesis
  proof cases
    case 1
    with run m p show thesis
      by (intro get [of "tl (route_path r)"]) (auto simp: NewRouter_routes pattern_matches_def HasPrefix_iff)
  next
    case 2
    with run m p show thesis by (intro save) (auto simp: NewRouter_routes pattern_matches_def)
  next
    case 3
    with run m p show thesis
      by (intro delete [of "tl (route_path r)"]) (auto simp: NewRouter_routes pattern_matches_def HasPrefix_iff)
  next
    case 4
    with run m p show thesis by (intro probe) (auto simp: NewRouter_routes pattern_matches_def)
  qed
next
  case (Mounted j path ps)
  from chi_library.mounted_below [OF assms(1) _ this]
  have "j = 0" "at_or_below ''/auth'' (route_path r)" "path = path_below ''/auth'' (route_path r)" by auto
  with assms(2) Mounted show thesis by (intro auth) (simp_all add: mux_dispatch_def use_all_def auth_router_eq)
qed (use assms(2) in \<open>auto simp: mux_dispatch_def write_text_def intro: unmatched\<close>)

end
