(* ===== verification/Backend.thy ===== *)
theory Backend
  imports Postgres Redis_Cache Random_Alias
begin

text \<open>
  An executable stand-in for the two servers, on which the contracts \<open>pg_server\<close>,
  \<open>redis_server\<close> and \<open>cached_deployment\<close> are interpreted and the witnesses are run: the
  table of \<open>migrations/000001_init.up.sql\<close> (a serial id, a unique alias of at most 255
  characters, a url), a key space with expiry times, a clock, a supply of random bytes, and a schedule that decides for
  every call how long it takes and whether it works, is refused, or is executed with its reply
  lost.
\<close>

datatype fault = Works | Refused | ReplyLost

record backend =
  be_table :: "string \<rightharpoonup> (nat \<times> string)"
  be_seq :: nat
  be_keys :: "string \<rightharpoonup> (string \<times> nat option)"
  be_now :: nat
  be_canceled :: bool
  be_entropy :: "byte list"
  be_schedule :: "(nat \<times> fault) list"

definition next_event :: "(backend, fault) io" where
  "next_event w =
     (case be_schedule w of
        [] \<Rightarrow> (Works, w)
      | (d, f) # es \<Rightarrow> (f, w\<lparr>be_now := be_now w + d, be_schedule := es\<rparr>))"

definition be_rows :: "backend \<Rightarrow> links" where
  "be_rows w = (\<lambda>a. map_option snd (be_table w a))"

definition live :: "nat \<Rightarrow> nat option \<Rightarrow> bool" where
  "live now e = (case e of None \<Rightarrow> True | Some t \<Rightarrow> now < t)"

definition be_kv :: "backend \<Rightarrow> links" where
  "be_kv w = (\<lambda>k. case be_keys w k of
     Some (v, e) \<Rightarrow> (if live (be_now w) e then Some v else None) | None \<Rightarrow> None)"

section \<open>The clock\<close>

definition be_clock :: "backend \<Rightarrow> time" where
  "be_clock w = int (min (be_now w) (2 ^ 62))"

definition be_runtime :: "backend runtime" where
  "be_runtime =
     \<lparr>time_Now = (\<lambda>w. (be_clock w, w)),
      ctx_Err = (\<lambda>c w. (if be_canceled w then Some (Sentinel ContextCanceled)
         else (case ctx_deadline c of
                 Some t \<Rightarrow> if t \<le> be_clock w then Some (Sentinel ContextDeadlineExceeded) else None
               | None \<Rightarrow> None), w))\<rparr>"

section \<open>The database\<close>

text \<open>Characters of a UTF-8 string: its bytes that are not continuation bytes.\<close>

definition char_count :: "string \<Rightarrow> nat" where
  "char_count s = length (filter (\<lambda>c. \<not> (128 \<le> (of_char c :: nat) \<and> (of_char c :: nat) < 192)) s)"

definition sql_insert :: "string \<Rightarrow> string \<Rightarrow> (backend, go_error + int) io" where
  "sql_insert u a w =
     (if 255 < char_count a then (Inl (PgError ''22001'' []), w)
      else (let w1 = w\<lparr>be_seq := Suc (be_seq w)\<rparr> in
        if be_table w a \<noteq> None then (Inl (PgError pgUniqueViolation urlAliasConstraint), w1)
        else (Inr 1, w1\<lparr>be_table := (be_table w)(a \<mapsto> (be_seq w1, u))\<rparr>)))"

definition sql_delete :: "string \<Rightarrow> (backend, go_error + int) io" where
  "sql_delete a w =
     (if be_table w a = None then (Inr 0, w) else (Inr 1, w\<lparr>be_table := (be_table w)(a := None)\<rparr>))"

definition run_sql :: "string \<Rightarrow> string list \<Rightarrow> (backend, go_error + int) io" where
  "run_sql q args w =
     (if q = insertURLQuery then (case args of [u, a] \<Rightarrow> sql_insert u a w | _ \<Rightarrow> (Inl (PgError ''08P01'' []), w))
      else if q = deleteURLQuery then (case args of [a] \<Rightarrow> sql_delete a w | _ \<Rightarrow> (Inl (PgError ''08P01'' []), w))
      else (Inl (PgError ''42601'' []), w))"

definition be_Exec :: "ctx \<Rightarrow> string \<Rightarrow> string list \<Rightarrow> (backend, go_error + int) io" where
  "be_Exec c q args w =
     (case next_event w of (f, w1) \<Rightarrow>
        if f = Refused then (Inl (Dynamic ''connection refused''), w1)
        else (case run_sql q args w1 of (r, w2) \<Rightarrow>
                if f = ReplyLost then (Inl (Sentinel ContextDeadlineExceeded), w2) else (r, w2)))"

definition be_QueryRow :: "ctx \<Rightarrow> string \<Rightarrow> string list \<Rightarrow> (backend, go_error + string) io" where
  "be_QueryRow c q args w =
     (case next_event w of (f, w1) \<Rightarrow>
        if f \<noteq> Works then (Inl (Dynamic ''connection refused''), w1)
        else if q = selectURLQuery then
          (case args of
             [a] \<Rightarrow> (case be_table w1 a of Some (i, u) \<Rightarrow> (Inr u, w1) | None \<Rightarrow> (Inl (Sentinel PgxErrNoRows), w1))
           | _ \<Rightarrow> (Inl (PgError ''08P01'' []), w1))
        else (Inl (PgError ''42601'' []), w1))"

definition be_ping :: "ctx \<Rightarrow> (backend, go_error option) io" where
  "be_ping c w =
     (case next_event w of (f, w1) \<Rightarrow> (if f = Works then None else Some (Dynamic ''connection refused''), w1))"

definition be_pool :: "backend Pool" where
  "be_pool = \<lparr>pool_Exec = be_Exec, pool_QueryRow = be_QueryRow, pool_Ping = be_ping\<rparr>"

section \<open>Redis\<close>

definition be_rget :: "ctx \<Rightarrow> string \<Rightarrow> (backend, go_error + string) io" where
  "be_rget c k w =
     (case next_event w of (f, w1) \<Rightarrow>
        if f \<noteq> Works then (Inl (Dynamic ''connection refused''), w1)
        else (case be_kv w1 k of Some v \<Rightarrow> (Inr v, w1) | None \<Rightarrow> (Inl (Sentinel RedisNil), w1)))"

definition be_rset :: "ctx \<Rightarrow> string \<Rightarrow> string \<Rightarrow> duration \<Rightarrow> (backend, go_error option) io" where
  "be_rset c k v ttl w =
     (case next_event w of (f, w1) \<Rightarrow>
        if f = Refused then (Some (Dynamic ''connection refused''), w1)
        else (if f = ReplyLost then Some (Dynamic ''i/o timeout'') else None,
              w1\<lparr>be_keys := (be_keys w1)(k \<mapsto> (v, if 0 < ttl then Some (be_now w1 + nat ttl) else None))\<rparr>))"

definition be_rdel :: "ctx \<Rightarrow> string \<Rightarrow> (backend, go_error option) io" where
  "be_rdel c k w =
     (case next_event w of (f, w1) \<Rightarrow>
        if f = Refused then (Some (Dynamic ''connection refused''), w1)
        else (if f = ReplyLost then Some (Dynamic ''i/o timeout'') else None,
              w1\<lparr>be_keys := (be_keys w1)(k := None)\<rparr>))"

definition be_redis :: "backend Redis" where
  "be_redis = \<lparr>rdb_Get = be_rget, rdb_Set = be_rset, rdb_Del = be_rdel, rdb_Ping = be_ping\<rparr>"

definition be_cache :: "duration \<Rightarrow> backend Cache" where
  "be_cache ttl = Cache_New (\<lambda>k f. f) (postgres_storage be_runtime be_pool) be_redis ttl"

lemma be_selectors [simp]:
  "time_Now be_runtime = (\<lambda>w. (be_clock w, w))"
  "pool_Exec be_pool = be_Exec" "pool_QueryRow be_pool = be_QueryRow" "pool_Ping be_pool = be_ping"
  "rdb_Get be_redis = be_rget" "rdb_Set be_redis = be_rset" "rdb_Del be_redis = be_rdel"
  "rdb_Ping be_redis = be_ping"
  by (simp_all add: be_runtime_def be_pool_def be_redis_def)

lemma be_cache_selectors [simp]:
  "cache_next (be_cache ttl) = postgres_storage be_runtime be_pool"
  "cache_rdb (be_cache ttl) = be_redis"
  "cache_ttl (be_cache ttl) = ttl"
  "group_Do (be_cache ttl) k f = f"
  by (simp_all add: be_cache_def)

lemmas be_simps =
  next_event_def be_Exec_def be_QueryRow_def
  be_ping_def be_rget_def be_rset_def be_rdel_def run_sql_def sql_insert_def sql_delete_def

section \<open>The contracts hold\<close>

lemma queries_differ [simp]:
  "insertURLQuery \<noteq> deleteURLQuery" "deleteURLQuery \<noteq> insertURLQuery"
  by (simp_all add: insertURLQuery_def deleteURLQuery_def sql_line_def)

lemma next_event_frame:
  "next_event w = (f, w') \<Longrightarrow> be_table w' = be_table w \<and> be_keys w' = be_keys w \<and> be_now w \<le> be_now w'"
  by (auto simp: next_event_def split: list.splits)

lemma live_earlier: "live m e \<Longrightarrow> n \<le> m \<Longrightarrow> live n e"
  by (auto simp: live_def split: option.splits)

lemma kv_shrinks: "be_keys w' = be_keys w \<Longrightarrow> be_now w \<le> be_now w' \<Longrightarrow> be_kv w' \<subseteq>\<^sub>m be_kv w"
  by (auto simp: map_le_def be_kv_def split: option.splits prod.splits if_splits dest: live_earlier)

lemma next_event_kv: "next_event w = (f, w') \<Longrightarrow> be_kv w' \<subseteq>\<^sub>m be_kv w"
  by (auto dest: next_event_frame intro: kv_shrinks)

lemma next_event_rows: "next_event w = (f, w') \<Longrightarrow> be_rows w' = be_rows w"
  by (auto dest: next_event_frame simp: be_rows_def)

lemma be_rows_upd [simp]:
  "be_rows (w\<lparr>be_table := (be_table v)(a \<mapsto> (i, u))\<rparr>) = (be_rows v)(a \<mapsto> u)"
  "be_rows (w\<lparr>be_table := (be_table v)(a := None)\<rparr>) = (be_rows v)(a := None)"
  "be_rows (w\<lparr>be_seq := n\<rparr>) = be_rows w"
  "be_rows (w\<lparr>be_keys := k\<rparr>) = be_rows w"
  by (auto simp: be_rows_def)

lemma be_kv_upd [simp]:
  "be_kv (w\<lparr>be_table := t\<rparr>) = be_kv w"
  "be_kv (w\<lparr>be_seq := n\<rparr>) = be_kv w"
  by (rule ext, simp add: be_kv_def split: option.splits)+

lemma rows_None: "be_rows w a = None \<longleftrightarrow> be_table w a = None"
  by (simp add: be_rows_def)

lemma sql_insert_rows:
  "sql_insert u a w = (r, w') \<Longrightarrow>
   (r = Inr 1 \<and> be_rows w a = None \<and> be_rows w' = (be_rows w)(a \<mapsto> u)) \<or>
   (\<exists>code con. r = Inl (PgError code con) \<and> be_rows w' = be_rows w \<and>
      (code = pgUniqueViolation \<longrightarrow> be_rows w a \<noteq> None))"
  by (auto simp: sql_insert_def Let_def rows_None pgUniqueViolation_def simp del: fun_upd_apply split: if_splits)

lemma sql_delete_rows:
  "sql_delete a w = (r, w') \<Longrightarrow>
   r = Inr (if be_rows w a = None then 0 else 1) \<and> be_rows w' = (be_rows w)(a := None)"
  by (auto simp: sql_delete_def rows_None fun_upd_idem simp del: fun_upd_apply split: if_splits)

lemma be_Exec_insert:
  assumes "be_Exec c insertURLQuery [u, a] w = (r, w')"
  shows "(r = Inr 1 \<and> be_rows w a = None \<and> be_rows w' = (be_rows w)(a \<mapsto> u)) \<or>
    (\<exists>e. r = Inl e \<and> (be_rows w' = be_rows w \<or> be_rows w a = None \<and> be_rows w' = (be_rows w)(a \<mapsto> u)) \<and>
       (unique_violation e \<longrightarrow> be_rows w a \<noteq> None \<and> be_rows w' = be_rows w))"
proof -
  obtain f w1 where ev: "next_event w = (f, w1)" by (metis surj_pair)
  obtain q w2 where q: "sql_insert u a w1 = (q, w2)" by (metis surj_pair)
  from assms ev q next_event_rows [OF ev] sql_insert_rows [OF q] show ?thesis
    by (cases f) (auto simp: be_Exec_def run_sql_def unique_violation_def)
qed

lemma be_Exec_delete:
  assumes "be_Exec c deleteURLQuery [a] w = (r, w')"
  shows "(r = Inr (if be_rows w a = None then 0 else 1) \<and> be_rows w' = (be_rows w)(a := None)) \<or>
    (\<exists>e. r = Inl e \<and> (be_rows w' = be_rows w \<or> be_rows w' = (be_rows w)(a := None)))"
proof -
  obtain f w1 where ev: "next_event w = (f, w1)" by (metis surj_pair)
  obtain q w2 where q: "sql_delete a w1 = (q, w2)" by (metis surj_pair)
  from assms ev q next_event_rows [OF ev] sql_delete_rows [OF q] show ?thesis
    by (cases f) (auto simp: be_Exec_def run_sql_def)
qed

lemma be_Exec_foreign: "be_Exec c q args w = (Inl e, w') \<Longrightarrow>
   \<not> errors_Is e ErrURLExist \<and> \<not> errors_Is e ErrURLNotFound \<and> \<not> errors_Is e ErrInvalidURL"
  by (auto simp: be_Exec_def run_sql_def sql_insert_def sql_delete_def Let_def
      split: prod.splits if_splits list.splits)

lemma be_Exec_kv: "be_Exec c q args w = (r, w') \<Longrightarrow> be_kv w' \<subseteq>\<^sub>m be_kv w"
  by (auto simp: be_Exec_def run_sql_def sql_insert_def sql_delete_def Let_def
      split: prod.splits if_splits list.splits dest!: next_event_kv)

lemma be_QueryRow_spec:
  assumes "be_QueryRow c selectURLQuery [a] w = (r, w')"
  shows "be_rows w' = be_rows w \<and> (\<forall>u. r = Inr u \<longrightarrow> be_rows w a = Some u) \<and>
    (\<forall>e. r = Inl e \<longrightarrow> errors_Is e PgxErrNoRows \<longrightarrow> be_rows w a = None)"
proof -
  obtain f w1 where ev: "next_event w = (f, w1)" by (metis surj_pair)
  from assms ev next_event_rows [OF ev] next_event_frame [OF ev] show ?thesis
    by (cases "be_table w a") (auto simp: be_QueryRow_def be_rows_def split: if_splits)
qed

lemma be_QueryRow_frame:
  "be_QueryRow c q args w = (r, w') \<Longrightarrow>
   be_kv w' \<subseteq>\<^sub>m be_kv w \<and> (\<forall>e. r = Inl e \<longrightarrow> \<not> errors_Is e ErrURLNotFound)"
  by (auto simp: be_QueryRow_def split: prod.splits if_splits list.splits option.splits
      dest!: next_event_kv)

interpretation be_pg: pg_server be_runtime be_pool be_rows
proof (unfold_locales, goal_cases)
  case (1 w t w') then show ?case by simp
next
  case (2 c u a w n w') then show ?case by (auto dest: be_Exec_insert)
next
  case (3 c u a w e w') then show ?case by (auto dest: be_Exec_insert)
next
  case (4 c u a w e w') then show ?case by (auto dest: be_Exec_insert)
next
  case (5 c a w u w') then show ?case by (auto dest: be_QueryRow_spec)
next
  case (6 c a w e w') then show ?case by (auto dest: be_QueryRow_spec)
next
  case (7 c a w n w') then show ?case by (auto dest: be_Exec_delete split: if_splits)
next
  case (8 c a w e w') then show ?case by (auto dest: be_Exec_delete)
next
  case (9 c q args w e w') then show ?case by (simp add: be_Exec_foreign)
next
  case (10 c q args w e w') then show ?case by (auto dest: be_QueryRow_frame)
qed

lemma be_rget_spec:
  "be_rget c k w = (r, w') \<Longrightarrow>
   be_rows w' = be_rows w \<and> be_kv w' \<subseteq>\<^sub>m be_kv w \<and> (\<forall>v. r = Inr v \<longrightarrow> be_kv w k = Some v)"
  by (auto simp: be_rget_def split: prod.splits if_splits option.splits
      dest: next_event_rows next_event_kv map_leD)

lemma be_kv_set:
  "be_kv (w\<lparr>be_keys := (be_keys w)(k \<mapsto> (v, if 0 < ttl then Some (be_now w + nat ttl) else None))\<rparr>) =
   (be_kv w)(k \<mapsto> v)"
  by (rule ext) (simp add: be_kv_def live_def split: option.splits)

lemma be_kv_del: "be_kv (w\<lparr>be_keys := (be_keys w)(k := None)\<rparr>) = (be_kv w)(k := None)"
  by (rule ext) (simp add: be_kv_def split: option.splits)

lemma map_le_upd_None: "m \<subseteq>\<^sub>m t \<Longrightarrow> m(k := None) \<subseteq>\<^sub>m t(k := None)"
  by (auto simp: map_le_def)

lemma be_rset_spec:
  assumes "be_rset c k v ttl w = (e, w')"
  shows "be_rows w' = be_rows w \<and> (be_kv w' \<subseteq>\<^sub>m be_kv w \<or> be_kv w' \<subseteq>\<^sub>m (be_kv w)(k \<mapsto> v))"
proof -
  obtain f w1 where ev: "next_event w = (f, w1)" by (metis surj_pair)
  show ?thesis
  proof (cases "f = Refused")
    case True
    with assms ev next_event_rows [OF ev] next_event_kv [OF ev] show ?thesis
      by (auto simp: be_rset_def)
  next
    case False
    with assms ev have "w' = w1\<lparr>be_keys := (be_keys w1)(k \<mapsto> (v, if 0 < ttl then Some (be_now w1 + nat ttl) else None))\<rparr>"
      by (auto simp: be_rset_def)
    with next_event_rows [OF ev] map_le_upd [OF next_event_kv [OF ev]] show ?thesis
      by (simp only: be_kv_set be_rows_upd) simp
  qed
qed

lemma be_rdel_spec:
  assumes "be_rdel c k w = (e, w')"
  shows "be_rows w' = be_rows w \<and> be_kv w' \<subseteq>\<^sub>m be_kv w \<and> (e = None \<longrightarrow> be_kv w' \<subseteq>\<^sub>m (be_kv w)(k := None))"
proof -
  obtain f w1 where ev: "next_event w = (f, w1)" by (metis surj_pair)
  show ?thesis
  proof (cases "f = Refused")
    case True
    with assms ev next_event_rows [OF ev] next_event_kv [OF ev] show ?thesis
      by (auto simp: be_rdel_def)
  next
    case False
    with assms ev have w': "w' = w1\<lparr>be_keys := (be_keys w1)(k := None)\<rparr>"
      by (auto simp: be_rdel_def)
    have "(be_kv w1)(k := None) \<subseteq>\<^sub>m (be_kv w)(k := None)"
      using next_event_kv [OF ev] by (rule map_le_upd_None)
    moreover have "(be_kv w)(k := None) \<subseteq>\<^sub>m be_kv w" by (simp add: map_le_def)
    ultimately show ?thesis
      using next_event_rows [OF ev] by (auto simp: w' be_kv_del intro: map_le_trans)
  qed
qed

lemma postgres_kv:
  "PostgresRepo_Save be_runtime be_pool c u a w = (e, w') \<Longrightarrow> be_kv w' \<subseteq>\<^sub>m be_kv w"
  "PostgresRepo_Get be_runtime be_pool c a w = (r, w') \<Longrightarrow> be_kv w' \<subseteq>\<^sub>m be_kv w"
  "PostgresRepo_Delete be_runtime be_pool c a w = (e, w') \<Longrightarrow> be_kv w' \<subseteq>\<^sub>m be_kv w"
  by (auto simp: PostgresRepo_Save_def PostgresRepo_Get_def PostgresRepo_Delete_def Let_def
      split: go_splits dest: be_Exec_kv be_QueryRow_frame)

interpretation be: cached_deployment "be_cache ttl" be_rows be_runtime be_kv for ttl
proof (intro cached_deployment.intro cached_store.intro cached_store_axioms.intro
    cached_deployment_axioms.intro, goal_cases)
  case 1 show ?case by (simp add: be_pg.pg.link_reader_axioms)
next
  case 2 show ?case
    by unfold_locales (auto dest: be_rget_spec be_rset_spec be_rdel_spec)
next
  case (11 w t w') then show ?case
    by (auto simp: be_clock_def redisCooldown_def Second_def)
qed (auto dest: be_rget_spec be_rset_spec be_rdel_spec postgres_kv)

end
