(* ===== verification/Cache_Properties.thy ===== *)
theory Cache_Properties
  imports Backend
begin

text \<open>
  The properties of the storage layer: what the cache in front of the database returns and
  stores, how long the breaker keeps away from Redis, and how far the cache and the database can
  come apart. The hypotheses \<open>cached_store\<close> and \<open>cached_deployment\<close> are the contracts of
  theory \<open>Redis_Cache\<close>; the witnesses discharge them with the interpretation on \<open>Backend\<close>.
\<close>

section \<open>Evaluation\<close>

definition empty_backend :: backend where
  "empty_backend = \<lparr>be_table = Map.empty, be_seq = 0, be_keys = Map.empty, be_now = 1000,
     be_canceled = False, be_entropy = [], be_schedule = []\<rparr>"

definition fresh :: "backend cached" where
  "fresh = (0, empty_backend)"

lemmas cache_eval =
  fresh_def empty_backend_def Cache_Save_def Cache_Get_def Cache_Delete_def cached_lookup_def
  load_and_fill_def redisAvailable_def markRedisDown_def PostgresRepo_Save_def PostgresRepo_Get_def
  PostgresRepo_Delete_def be_simps Let_def be_clock_def UnixNano_def redisCooldown_def Second_def
  char_count_def be_kv_def live_def op_wrap_def pgUniqueViolation_def urlAliasConstraint_def

section \<open>Runs of cache operations\<close>

text \<open>
  A sequence of operations, with any results, in which no delete fails in an unknown way: a
  delete whose statement fails with another error than \<open>ErrURLNotFound\<close> may have removed the
  row all the same.
\<close>

inductive clean_run :: "'w runtime \<Rightarrow> 'w Cache \<Rightarrow> 'w cached \<Rightarrow> 'w cached \<Rightarrow> bool"
  for rt :: "'w runtime" and c :: "'w Cache" and s :: "'w cached" where
  run_start: "clean_run rt c s s"
| run_save: "clean_run rt c s s1 \<Longrightarrow> Cache_Save rt c x u a s1 = (r, s2) \<Longrightarrow> clean_run rt c s s2"
| run_get: "clean_run rt c s s1 \<Longrightarrow> Cache_Get rt c x a s1 = (g, s2) \<Longrightarrow> clean_run rt c s s2"
| run_delete: "clean_run rt c s s1 \<Longrightarrow> Cache_Delete rt c x a s1 = (r, s2) \<Longrightarrow>
     (case r of None \<Rightarrow> True | Some e \<Rightarrow> errors_Is e ErrURLNotFound) \<Longrightarrow> clean_run rt c s s2"

context cached_deployment
begin

lemma keeps_zero_available: "redisAvailable rt s = (b, s') \<Longrightarrow> fst s' = fst s"
  by (simp add: available_frame)

lemma Save_zero: "Cache_Save rt c x u a s = (r, s') \<Longrightarrow> fst s' = 0 \<Longrightarrow> fst s = 0"
  by (auto simp: Cache_Save_def down_not_zero split: prod.splits option.splits if_splits
      dest: keeps_zero_available)

lemma Delete_zero: "Cache_Delete rt c x a s = (r, s') \<Longrightarrow> fst s' = 0 \<Longrightarrow> fst s = 0"
  by (auto simp: Cache_Delete_def down_not_zero split: prod.splits option.splits if_splits
      dest: keeps_zero_available)

lemma lookup_zero: "cached_lookup rt c x a s = (r, s') \<Longrightarrow> fst s' = 0 \<Longrightarrow> fst s = 0"
  by (auto simp: cached_lookup_def down_not_zero split: prod.splits sum.splits if_splits
      dest: keeps_zero_available)

lemma fill_zero: "load_and_fill rt c x a s = (r, s') \<Longrightarrow> fst s' = 0 \<Longrightarrow> fst s = 0"
  by (auto simp: load_and_fill_def down_not_zero split: prod.splits sum.splits if_splits
      dest: keeps_zero_available)

lemma Get_zero: "Cache_Get rt c x a s = (r, s') \<Longrightarrow> fst s' = 0 \<Longrightarrow> fst s = 0"
  by (auto simp: Cache_Get_def Do_runs split: prod.splits option.splits dest: fill_zero lookup_zero)

lemma Delete_step_coherent:
  assumes "coherent rows kv s" and "Cache_Delete rt c x a s = (r, s')" and "fst s' = 0"
    and "case r of None \<Rightarrow> True | Some e \<Rightarrow> errors_Is e ErrURLNotFound"
  shows "coherent rows kv s'"
proof (cases r)
  case None
  with assms Delete_zero [OF assms(2,3)] show ?thesis by (auto intro: Delete_coherent)
next
  case (Some e)
  from Delete_spec [OF assms(2)] obtain w1 where
    "st_Delete (cache_next c) x a (snd s) = (Some e, w1)" "rows (snd s') = rows w1"
    "kv (snd s') \<subseteq>\<^sub>m kv (snd s)" using Some by blast
  with nxt.delete_missing [of x a "snd s" e w1] assms(1,4) Some show ?thesis
    by (auto simp: coherent_def intro: map_le_trans)
qed

lemma clean_run_coherent:
  assumes "clean_run rt c s s'" and "coherent rows kv s" and "fst s' = 0"
  shows "coherent rows kv s'"
  using assms
proof (induction rule: clean_run.induct)
  case (run_save s1 x u a r s2)
  then show ?case by (metis Save_zero Save_coherent)
next
  case (run_get s1 x a g s2)
  then show ?case by (metis Get_zero Get_coherent)
next
  case (run_delete s1 x a r s2)
  then show ?case by (metis Delete_zero Delete_step_coherent)
qed simp

end

section \<open>Properties\<close>

text \<open>
  C5. Coherence of the cache: through any sequence of saves, reads and deletes that run one after
  the other from a coherent state, whatever Redis and the database answer, as long as the breaker
  has never tripped and no delete failed in an unknown way (with an error other than
  \<open>ErrURLNotFound\<close>, after which the row may be gone), every live Redis entry equals the database
  row, so a successful \<open>Get\<close> returns exactly the stored url.
\<close>

theorem cache_coherent_until_tripped:
  assumes "cached_deployment c rows rt kv"
    and "clean_run rt c s s'" and "coherent rows kv s" and "fst s' = 0"
  shows "coherent rows kv s' \<and>
         (\<forall>x a u s''. Cache_Get rt c x a s' = (Inr u, s'') \<longrightarrow> rows (snd s') a = Some u)"
proof -
  have st: "cached_store c rows rt kv" using assms(1) by (rule cached_deployment.axioms(1))
  have "coherent rows kv s'" by (rule cached_deployment.clean_run_coherent [OF assms])
  then show ?thesis by (auto intro: cached_store.Get_sound [OF st])
qed

definition after_save :: "backend cached" where
  "after_save = snd (Cache_Save be_runtime (be_cache Minute) Background ''https://go.dev'' ''godev'' fresh)"

lemma after_save_run:
  "Cache_Save be_runtime (be_cache Minute) Background ''https://go.dev'' ''godev'' fresh = (None, after_save)"
  by (simp add: after_save_def cache_eval)

theorem cache_coherent_until_tripped_witness:
  "clean_run be_runtime (be_cache Minute) fresh after_save \<and> coherent be_rows be_kv after_save \<and>
   fst after_save = 0 \<and> be_rows (snd after_save) ''godev'' = Some ''https://go.dev''"
proof -
  have run: "clean_run be_runtime (be_cache Minute) fresh after_save"
    by (rule run_save [OF run_start after_save_run])
  have co: "coherent be_rows be_kv fresh"
    by (simp add: coherent_def fresh_def empty_backend_def be_kv_def map_le_def)
  have z: "fst after_save = 0" by (simp add: after_save_def cache_eval)
  from cache_coherent_until_tripped [OF be.cached_deployment_axioms run co z]
  have "coherent be_rows be_kv after_save" by blast
  moreover have "be_rows (snd after_save) ''godev'' = Some ''https://go.dev''"
    by (simp add: after_save_def cache_eval be_rows_def)
  ultimately show ?thesis using run z by blast
qed

text \<open>
  C19. The cache writes through: \<open>Save\<close> and \<open>Delete\<close> return exactly what the storage
  below returns and leave the database as it left it, whatever Redis does; and \<open>Get\<close> changes
  no row and fails only with an error of the storage below, never with one of Redis.
\<close>

theorem Cache_writes_through:
  assumes "cached_store c rows rt kv"
  shows "(\<forall>x u a s r s'. Cache_Save rt c x u a s = (r, s') \<longrightarrow>
            (\<exists>w1. st_Save (cache_next c) x u a (snd s) = (r, w1) \<and> rows (snd s') = rows w1)) \<and>
         (\<forall>x a s r s'. Cache_Delete rt c x a s = (r, s') \<longrightarrow>
            (\<exists>w1. st_Delete (cache_next c) x a (snd s) = (r, w1) \<and> rows (snd s') = rows w1)) \<and>
         (\<forall>x a s g s'. Cache_Get rt c x a s = (g, s') \<longrightarrow>
            rows (snd s') = rows (snd s) \<and>
            (\<forall>e. g = Inl e \<longrightarrow> (\<exists>w w1. st_Get (cache_next c) x a w = (Inl e, w1))))"
proof (intro conjI allI impI)
  fix x u a s r s'
  assume "Cache_Save rt c x u a s = (r, s')"
  from cached_store.Save_spec [OF assms this]
  show "\<exists>w1. st_Save (cache_next c) x u a (snd s) = (r, w1) \<and> rows (snd s') = rows w1" by blast
next
  fix x a s r s'
  assume "Cache_Delete rt c x a s = (r, s')"
  from cached_store.Delete_spec [OF assms this]
  show "\<exists>w1. st_Delete (cache_next c) x a (snd s) = (r, w1) \<and> rows (snd s') = rows w1" by blast
next
  fix x a s g s'
  assume get: "Cache_Get rt c x a s = (g, s')"
  show "rows (snd s') = rows (snd s)" by (rule cached_store.Get_spec [OF assms get])
  show "\<exists>w w1. st_Get (cache_next c) x a w = (Inl e, w1)" if "g = Inl e" for e
    by (rule cached_store.Get_spec [OF assms get]) (use that in auto)
qed

text \<open>Redis is refused on the write: the save succeeds all the same and is stored.\<close>

definition redis_down :: "backend cached" where
  "redis_down = (0, empty_backend\<lparr>be_schedule := [(0, Works), (0, Refused)]\<rparr>)"

theorem Cache_writes_through_witness:
  "fst (Cache_Save be_runtime (be_cache Minute) Background ''https://go.dev'' ''godev'' redis_down) = None \<and>
   be_rows (snd (snd (Cache_Save be_runtime (be_cache Minute) Background ''https://go.dev'' ''godev'' redis_down)))
     ''godev'' = Some ''https://go.dev''"
proof -
  let ?run = "Cache_Save be_runtime (be_cache Minute) Background ''https://go.dev'' ''godev'' redis_down"
  have "fst ?run = None" by (simp add: redis_down_def cache_eval)
  then have "?run = (None, snd ?run)" by (metis prod.collapse)
  with Cache_writes_through [OF be.cached_store_axioms [of Minute]] have
    "\<exists>w1. st_Save (cache_next (be_cache Minute)) Background ''https://go.dev'' ''godev'' (snd redis_down) =
       (None, w1) \<and> be_rows (snd (snd ?run)) = be_rows w1" by blast
  then obtain w1 where
    w1: "PostgresRepo_Save be_runtime be_pool Background ''https://go.dev'' ''godev'' (snd redis_down) = (None, w1)"
    and "be_rows (snd (snd ?run)) = be_rows w1" by auto
  moreover from w1 have "be_rows w1 ''godev'' = Some ''https://go.dev''"
    by (auto elim: be_pg.Save_cases)
  ultimately show ?thesis using \<open>fst ?run = None\<close> by simp
qed

text \<open>
  C20. The breaker stays open for exactly \<open>redisCooldown\<close>: after a failure at time \<open>t\<close>,
  a later check finds Redis available if and only if its clock reads at least five seconds
  more. The bound on \<open>t\<close> keeps the 64-bit timestamp from wrapping.
\<close>

theorem breaker_window:
  assumes "time_Now rt w = (t, w1)" and "0 \<le> t" and "t + redisCooldown < 2 ^ 63"
    and "time_Now rt w2 = (t2, w3)" and "0 \<le> t2" and "t2 < 2 ^ 63"
  shows "fst (redisAvailable rt (fst (markRedisDown rt (d, w)), w2)) \<longleftrightarrow> t + 5 * 1000000000 \<le> t2"
  using assms
  by (simp add: redisAvailable_def markRedisDown_def down_then_unavailable sint_UnixNano)
    (simp add: redisCooldown_def Second_def)

theorem breaker_window_witness:
  "\<not> fst (redisAvailable be_runtime (fst (markRedisDown be_runtime (0, empty_backend)),
        empty_backend\<lparr>be_now := 5000000999\<rparr>)) \<and>
   fst (redisAvailable be_runtime (fst (markRedisDown be_runtime (0, empty_backend)),
        empty_backend\<lparr>be_now := 5000001000\<rparr>))"
proof -
  have now: "time_Now be_runtime empty_backend = (1000, empty_backend)"
    "time_Now be_runtime (empty_backend\<lparr>be_now := 5000000999\<rparr>) = (5000000999, empty_backend\<lparr>be_now := 5000000999\<rparr>)"
    "time_Now be_runtime (empty_backend\<lparr>be_now := 5000001000\<rparr>) = (5000001000, empty_backend\<lparr>be_now := 5000001000\<rparr>)"
    by (simp_all add: be_clock_def empty_backend_def)
  show ?thesis
    using breaker_window [OF now(1) _ _ now(2), of 0] breaker_window [OF now(1) _ _ now(3), of 0]
    by (simp add: redisCooldown_def Second_def)
qed

definition breaker_open :: "'w runtime \<Rightarrow> int64 \<Rightarrow> 'w \<Rightarrow> bool" where
  "breaker_open rt d w \<longleftrightarrow> sint (UnixNano (fst (time_Now rt w))) < sint d"

lemma redisAvailable_open:
  "breaker_open rt (fst s) (snd s) \<Longrightarrow> redisAvailable rt s = (False, fst s, snd (time_Now rt (snd s)))"
  by (auto simp: breaker_open_def redisAvailable_def split: prod.splits)

lemma Save_skips_redis:
  "breaker_open rt d (snd (st_Save (cache_next c) x u a w)) \<Longrightarrow>
   Cache_Save rt (c\<lparr>cache_rdb := other\<rparr>) x u a (d, w) = Cache_Save rt c x u a (d, w)"
  by (auto simp: Cache_Save_def redisAvailable_open split: prod.splits option.splits)

lemma Delete_skips_redis:
  "breaker_open rt d (snd (st_Delete (cache_next c) x a w)) \<Longrightarrow>
   Cache_Delete rt (c\<lparr>cache_rdb := other\<rparr>) x a (d, w) = Cache_Delete rt c x a (d, w)"
  by (auto simp: Cache_Delete_def redisAvailable_open split: prod.splits option.splits)

lemma load_skips_redis:
  "breaker_open rt d (snd (st_Get (cache_next c) x a w)) \<Longrightarrow>
   load_and_fill rt (c\<lparr>cache_rdb := other\<rparr>) x a (d, w) = load_and_fill rt c x a (d, w)"
  by (auto simp: load_and_fill_def redisAvailable_open split: prod.splits sum.splits)

text \<open>
  While the breaker is open, Redis is not called: a \<open>Save\<close>, \<open>Get\<close> or \<open>Delete\<close>
  whose clock readings are all before \<open>downUntil\<close> has the same result and effect with any
  other Redis client in its place.
\<close>

lemma breaker_open_skips_redis:
  "(breaker_open rt d (snd (st_Save (cache_next c) x u a w)) \<longrightarrow>
      Cache_Save rt (c\<lparr>cache_rdb := other\<rparr>) x u a (d, w) = Cache_Save rt c x u a (d, w)) \<and>
   (breaker_open rt d (snd (st_Delete (cache_next c) x a w)) \<longrightarrow>
      Cache_Delete rt (c\<lparr>cache_rdb := other\<rparr>) x a (d, w) = Cache_Delete rt c x a (d, w)) \<and>
   ((\<forall>k f. group_Do c k f = f) \<longrightarrow> breaker_open rt d w \<longrightarrow>
    breaker_open rt d (snd (st_Get (cache_next c) x a (snd (time_Now rt w)))) \<longrightarrow>
      Cache_Get rt (c\<lparr>cache_rdb := other\<rparr>) x a (d, w) = Cache_Get rt c x a (d, w))"
  by (intro conjI impI)
    (simp_all add: Save_skips_redis Delete_skips_redis Cache_Get_def cached_lookup_def
      redisAvailable_open load_skips_redis)

section \<open>How far cache and database can come apart\<close>

definition outage :: "backend cached" where
  "outage = (0, empty_backend\<lparr>be_schedule := [(0, Works), (0, Works), (0, Refused)]\<rparr>)"

definition wait :: "nat \<Rightarrow> backend cached \<Rightarrow> backend cached" where
  "wait n s = (fst s, (snd s)\<lparr>be_now := be_now (snd s) + n\<rparr>)"

definition outage_tripped :: "backend cached" where
  "outage_tripped =
     (let c = be_cache (60 * Minute);
          s1 = snd (Cache_Save be_runtime c Background ''https://old.example'' ''sale'' outage)
      in snd (Cache_Get be_runtime c Background ''other'' s1))"

definition outage_deleted :: "backend cached" where
  "outage_deleted = snd (Cache_Delete be_runtime (be_cache (60 * Minute)) Background ''sale'' outage_tripped)"

text \<open>A delete of an alias without a row fails, and before Redis is called.\<close>

lemma Delete_missing_skips_redis:
  assumes "cached_store c rows rt kv" and "rows (snd s) a = None"
  shows "\<exists>e w1. Cache_Delete rt (c\<lparr>cache_rdb := rdb\<rparr>) x a s = (Some e, (fst s, w1)) \<and>
    Cache_Delete rt c x a s = (Some e, (fst s, w1))"
proof -
  obtain r w1 where del: "st_Delete (cache_next c) x a (snd s) = (r, w1)" by (metis surj_pair)
  have "r \<noteq> None"
    using link_store.delete_ok [OF link_reader.axioms(1) [OF cached_store.axioms(1) [OF assms(1)]],
        of x a "snd s" w1] del assms(2) by auto
  with del show ?thesis by (auto simp: Cache_Delete_def)
qed

lemma Get_hit:
  assumes "cached_store c rows rt kv" and "redisAvailable rt s = (True, s1)"
    and "rdb_Get (cache_rdb c) x a (snd s1) = (Inr v, w2)"
  shows "Cache_Get rt c x a s = (Inr v, (fst s1, w2)) \<and> kv (snd s1) a = Some v \<and> rows w2 = rows (snd s)"
  using assms(2,3) redis_server.get_hit [OF cached_store.axioms(2) [OF assms(1)] assms(3)]
    cached_store.get_rows [OF assms(1,3)] cached_store.available_frame [OF assms(1,2)]
  by (simp add: Cache_Get_def cached_lookup_def)

text \<open>
  C27. How a deleted link survives, whatever link and whatever the servers: a delete that succeeds
  while the breaker is open removes the row and does not call Redis, so an entry for the alias
  stays there until it expires. From then on, as long as the alias has no row, deleting it again
  fails, and also without a call of Redis, so the entry cannot be removed; and every read that
  finds the breaker closed, Redis answering and the entry live resolves the alias to the url of
  the entry, although it has no row.
\<close>

theorem deleted_link_still_resolves:
  fixes c :: "'w Cache"
  assumes "cached_store c rows rt kv" and "Cache_Delete rt c x a s = (None, s1)"
    and "breaker_open rt (fst s) (snd (st_Delete (cache_next c) x a (snd s)))"
  shows "rows (snd s) a \<noteq> None \<and> rows (snd s1) a = None \<and>
    (\<forall>other. Cache_Delete rt (c\<lparr>cache_rdb := other\<rparr>) x a s = (None, s1)) \<and>
    (\<forall>s2 y. rows (snd s2) a = None \<longrightarrow>
       (\<exists>e. fst (Cache_Delete rt c y a s2) = Some e) \<and>
       (\<forall>other. Cache_Delete rt (c\<lparr>cache_rdb := other\<rparr>) y a s2 = Cache_Delete rt c y a s2) \<and>
       (\<forall>s3 u v w4. redisAvailable rt s2 = (True, s3) \<longrightarrow> kv (snd s3) a = Some u \<longrightarrow>
          rdb_Get (cache_rdb c) y a (snd s3) = (Inr v, w4) \<longrightarrow>
          Cache_Get rt c y a s2 = (Inr u, (fst s3, w4)) \<and> rows w4 a = None))"
proof (intro conjI allI impI)
  from cached_store.Delete_spec [OF assms(1,2)] obtain w1 where
    w1: "st_Delete (cache_next c) x a (snd s) = (None, w1)" "rows (snd s1) = rows w1" by blast
  from link_store.delete_ok [OF link_reader.axioms(1) [OF cached_store.axioms(1) [OF assms(1)]] w1(1)] w1(2)
  show "rows (snd s) a \<noteq> None" "rows (snd s1) a = None" by simp_all
  show "Cache_Delete rt (c\<lparr>cache_rdb := other\<rparr>) x a s = (None, s1)" for other
    using Delete_skips_redis [of rt "fst s" c x a "snd s" other] assms(2,3) by simp
next
  fix s2 :: "'w cached" and y
  assume none: "rows (snd s2) a = None"
  show "\<exists>e. fst (Cache_Delete rt c y a s2) = Some e"
    using Delete_missing_skips_redis [OF assms(1) none, of "cache_rdb c" y] by auto
  show "Cache_Delete rt (c\<lparr>cache_rdb := other\<rparr>) y a s2 = Cache_Delete rt c y a s2" for other
    using Delete_missing_skips_redis [OF assms(1) none, of other y] by auto
  fix s3 u v w4
  assume "redisAvailable rt s2 = (True, s3)" "kv (snd s3) a = Some u"
    "rdb_Get (cache_rdb c) y a (snd s3) = (Inr v, w4)"
  with Get_hit [OF assms(1), of s2 s3 y a v w4] none
  show "Cache_Get rt c y a s2 = (Inr u, (fst s3, w4))" "rows w4 a = None" by auto
qed

text \<open>
  Redis fails once, on a read of another alias; the link is then deleted with success. Six seconds
  later it cannot be deleted again, and still resolves.
\<close>

theorem deleted_link_still_resolves_witness:
  "(\<exists>e. fst (Cache_Delete be_runtime (be_cache (60 * Minute)) Background ''sale'' (wait 6000000000 outage_deleted)) = Some e) \<and>
   fst (Cache_Get be_runtime (be_cache (60 * Minute)) Background ''sale'' (wait 6000000000 outage_deleted)) =
     Inr ''https://old.example''"
proof -
  let ?c = "be_cache (60 * Minute)" and ?s2 = "wait 6000000000 outage_deleted"
  have del: "Cache_Delete be_runtime ?c Background ''sale'' outage_tripped = (None, outage_deleted)"
    by (simp add: outage_deleted_def outage_tripped_def outage_def cache_eval Minute_def)
  have opened: "breaker_open be_runtime (fst outage_tripped)
      (snd (st_Delete (cache_next ?c) Background ''sale'' (snd outage_tripped)))"
    by (simp add: outage_tripped_def outage_def breaker_open_def cache_eval Minute_def)
  have none: "be_rows (snd ?s2) ''sale'' = None"
    and avail: "redisAvailable be_runtime ?s2 = (True, ?s2)"
    and live: "be_kv (snd ?s2) ''sale'' = Some ''https://old.example''"
    by (simp_all add: outage_deleted_def outage_tripped_def outage_def wait_def cache_eval be_rows_def Minute_def)
  obtain v w4 where get: "rdb_Get (cache_rdb ?c) Background ''sale'' (snd ?s2) = (Inr v, w4)"
    by (simp add: outage_deleted_def outage_tripped_def outage_def wait_def cache_eval Minute_def)
  note later = deleted_link_still_resolves [OF be.cached_store_axioms del opened, THEN conjunct2,
      THEN conjunct2, THEN conjunct2, rule_format, OF none, of Background]
  from later [THEN conjunct1] later [THEN conjunct2, THEN conjunct2, rule_format, OF avail live get]
  show ?thesis by simp
qed

definition outage_reused :: "backend cached" where
  "outage_reused =
     snd (Cache_Save be_runtime (be_cache (60 * Minute)) Background ''https://new.example'' ''sale'' outage_deleted)"

text \<open>
  How a link can lead to the wrong target: if the alias is taken again during the same five
  seconds, the database holds the new url, and readers are sent to the one of the deleted link.
\<close>

lemma reused_alias_resolves_to_old_url:
  "be_rows (snd outage_reused) ''sale'' = Some ''https://new.example'' \<and>
   fst (Cache_Get be_runtime (be_cache (60 * Minute)) Background ''sale'' (wait 6000000000 outage_reused)) =
     Inr ''https://old.example''"
  by (simp add: outage_reused_def outage_deleted_def outage_tripped_def outage_def wait_def cache_eval be_rows_def Minute_def)

end
