(* ===== verification/Service_Properties.thy ===== *)
theory Service_Properties
  imports Cache_Properties Service
begin

text \<open>
  The service over the cache, the database and the generator, as \<open>InitializeApp\<close> puts them
  together: the contract \<open>resolving_service\<close> is interpreted on that composition with the
  servers of theory \<open>Backend\<close>, and the properties of the service follow.
\<close>

section \<open>The composition\<close>

text \<open>The run-time system seen from the cache's state, and the entropy of the backend.\<close>

definition lift_runtime :: "'w runtime \<Rightarrow> 'w cached runtime" where
  "lift_runtime rt =
     \<lparr>time_Now = (\<lambda>s. case time_Now rt (snd s) of (t, w) \<Rightarrow> (t, (fst s, w))),
      ctx_Err = (\<lambda>x s. case ctx_Err rt x (snd s) of (e, w) \<Rightarrow> (e, (fst s, w)))\<rparr>"

definition be_rt :: "backend cached runtime" where
  "be_rt = lift_runtime be_runtime"

definition be_reader :: "backend cached reader" where
  "be_reader n s =
     (let bs = be_entropy (snd s) in
      ((take n bs, if bs = [] then Some (Sentinel IoEOF) else None),
       (fst s, (snd s)\<lparr>be_entropy := drop n bs\<rparr>)))"

definition be_service :: "duration \<Rightarrow> int \<Rightarrow> int \<Rightarrow> backend cached Service" where
  "be_service ttl len retries =
     \<lparr>srv_repository = cache_storage be_runtime (be_cache ttl),
      srv_generator = Generate (random_New be_reader len []),
      srv_cfg = \<lparr>MaxRetries = retries\<rparr>\<rparr>"

lemma be_service_simps [simp]:
  "srv_repository (be_service ttl len n) = cache_storage be_runtime (be_cache ttl)"
  "srv_generator (be_service ttl len n) = Generate (random_New be_reader len [])"
  "MaxRetries (srv_cfg (be_service ttl len n)) = n"
  by (simp_all add: be_service_def)

lemma be_rt_ctx: "ctx_Err be_rt x s = (e, s') \<Longrightarrow> s' = s \<and> (\<forall>t. e \<noteq> Some (Sentinel t) \<or> t \<in> {ContextCanceled, ContextDeadlineExceeded}) \<and> (e = None \<or> (\<exists>t. e = Some (Sentinel t)))"
  by (auto simp: be_rt_def lift_runtime_def be_runtime_def split: option.splits if_splits)

definition store_view :: "backend cached \<Rightarrow> int64 \<times> links \<times> links" where
  "store_view s = (fst s, be_rows (snd s), be_kv (snd s))"

lemma be_entropy_frame: "store_view (d, w\<lparr>be_entropy := bs\<rparr>) = store_view (d, w)"
  by (simp add: store_view_def be_rows_def be_kv_def cong: option.case_cong)

lemma be_reader_frame:
  "reads_frame be_reader store_view (\<lambda>e. e = Sentinel IoEOF \<or> e = Sentinel IoErrUnexpectedEOF)"
  by (auto simp: reads_frame_def be_reader_def be_entropy_frame Let_def split: if_splits)

lemma be_generator_frame:
  assumes "Generate (random_New be_reader len []) s = (r, s')"
  shows "store_view s' = store_view s \<and> 
    (\<forall>e. r = Err e \<longrightarrow> \<not> errors_Is e ErrURLExist \<and> \<not> errors_Is e ErrInvalidURL)"
proof -
  have rd: "entropyReader (random_New be_reader len []) = be_reader"
    by (simp add: random_New_def)
  have fr: "reads_frame (entropyReader (random_New be_reader len [])) store_view
      (\<lambda>e. e = Sentinel IoEOF \<or> e = Sentinel IoErrUnexpectedEOF)"
    by (simp only: rd be_reader_frame)
  from Generate_frame [OF fr assms] show ?thesis by auto
qed

lemma charset_trimmed: "set a \<subseteq> set charset \<Longrightarrow> TrimSpace a = a"
  by (rule TrimSpace_printable) (auto simp: list_all_iff charset_def space_byte_def)

interpretation be_svc: url_service "be_service ttl len n" "\<lambda>s. be_rows (snd s)" be_rt for ttl len n
proof (intro url_service.intro url_service_axioms.intro, goal_cases)
  case 1 show ?case using be.cached.link_store_axioms by simp
next
  case (2 x w ce w') then show ?case by (auto dest: be_rt_ctx)
next
  case (3 w r w') then show ?case by (auto dest!: be_generator_frame simp: store_view_def)
next
  case (4 x w e w') then show ?case by (auto dest: be_rt_ctx)
next
  case (5 w e w') then show ?case by (auto dest: be_generator_frame)
qed

lemma be_resolving:
  assumes "0 < len"
  shows "resolving_service (be_service ttl len n) (\<lambda>s. be_rows (snd s)) be_rt
           (coherent be_rows be_kv) (nat len) (set charset)"
proof (intro resolving_service.intro resolving_service_axioms.intro, goal_cases)
  case 1 show ?case by (rule be_svc.url_service_axioms)
next
  case 2 show ?case using be.cached.link_reader_axioms by simp
next
  case 3 show ?case
    using gen.alias_source_axioms [of "random_New be_reader len []"] by (simp add: random_New_def)
next
  case (4 w x ce w') then show ?case by (auto dest: be_rt_ctx)
next
  case (5 w r w') then show ?case
    by (auto dest!: be_generator_frame simp: store_view_def coherent_def)
next
  case 6 show ?case using assms by simp
next
  case (7 a) then show ?case by (rule charset_trimmed)
qed

interpretation be_res: resolving_service "be_service ttl 6 n" "\<lambda>s. be_rows (snd s)" be_rt
    "coherent be_rows be_kv" "nat 6" "set charset" for ttl n
  by (rule be_resolving) simp


interpretation be_guard: guarded_service "be_service ttl len n" "all_links P be_rows be_kv" P be_rt
  for ttl len n P
proof (intro guarded_service.intro guarded_service_axioms.intro, goal_cases)
  case 1 show ?case using be.guarded.guarded_store_axioms by simp
next
  case (2 w x ce w') then show ?case by (auto dest: be_rt_ctx)
next
  case (3 w r w') then show ?case
    by (auto dest!: be_generator_frame simp: store_view_def all_links_def)
qed

section \<open>Evaluation\<close>

definition with_entropy :: "byte list \<Rightarrow> backend cached" where
  "with_entropy bs = (0, empty_backend\<lparr>be_entropy := bs\<rparr>)"

lemma be_rt_ctx_eval:
  "ctx_Err be_rt x s =
     (if be_canceled (snd s) then Some (Sentinel ContextCanceled)
      else (case ctx_deadline x of
              Some t \<Rightarrow> if t \<le> be_clock (snd s) then Some (Sentinel ContextDeadlineExceeded) else None
            | None \<Rightarrow> None), s)"
  by (simp add: be_rt_def lift_runtime_def be_runtime_def)

lemma save_attempts_numeral:
  "save_attempts rt s ctx url (numeral k) w = save_attempts rt s ctx url (Suc (pred_numeral k)) w"
  by (simp only: numeral_eq_Suc)

lemmas service_eval =
  cache_eval with_entropy_def Service_Save_def Service_Get_def Service_Delete_def saveAlias_def
  saveGeneratedAlias_def save_attempts_numeral be_rt_ctx_eval Background_def
  random_New_def be_reader_def Generate_def generate_loop.simps ReadFull_def read_at_least.simps
  charset_def

lemma godev_trimmed [simp]:
  "TrimSpace '' https://go.dev '' = ''https://go.dev''" "TrimSpace ''https://go.dev'' = ''https://go.dev''"
  "TrimSpace ''godev'' = ''godev''" "TrimSpace ''ABCDEF'' = ''ABCDEF''"
  by code_simp+


definition short_run :: "string outcome \<times> backend cached" where
  "short_run = Service_Save be_rt (be_service Minute 6 2) Background '' https://go.dev '' []
     (with_entropy [0, 1, 2, 3, 4, 5])"

lemma short_run: "short_run = (Ok ''ABCDEF'', snd short_run)"
  by (simp add: short_run_def service_eval)

section \<open>Properties\<close>

text \<open>
  C17. What \<open>Save\<close> stores and reports. On success the trimmed url is stored under the returned
  alias, which was free, which is the trimmed alias of the request if one was given, and nothing
  else changes. An error that wraps \<open>ErrURLExist\<close>, the one the handler reports as a conflict,
  means that the request named an alias that is taken, and then nothing is stored: running out of
  generated aliases is never reported that way. In every case all links stored before are kept.
\<close>

theorem Save_stores:
  assumes "url_service s rows rt" and "Service_Save rt s x url alias w = (r, w')"
  shows "(\<forall>a. r = Ok a \<longrightarrow> TrimSpace url \<noteq> [] \<and> rows w a = None \<and>
            rows w' = (rows w)(a \<mapsto> TrimSpace url) \<and> (TrimSpace alias \<noteq> [] \<longrightarrow> a = TrimSpace alias)) \<and>
         (\<forall>e. r = Err e \<longrightarrow> errors_Is e ErrURLExist \<longrightarrow>
            TrimSpace alias \<noteq> [] \<and> rows w (TrimSpace alias) \<noteq> None \<and> rows w' = rows w) \<and>
         rows w \<subseteq>\<^sub>m rows w'"
  using url_service.Save_stored [OF assms(1)] url_service.Save_conflict [OF assms(1)]
    url_service.Save_extends [OF assms] assms(2)
  by blast

theorem Save_stores_witness:
  "(\<lambda>a. map_option snd (be_table (snd (snd short_run)) a)) = [''ABCDEF'' \<mapsto> ''https://go.dev'']"
proof -
  have "be_rows (snd (with_entropy [0, 1, 2, 3, 4, 5])) = Map.empty"
    by (simp add: with_entropy_def empty_backend_def be_rows_def)
  with Save_stores [OF be_svc.url_service_axioms short_run [unfolded short_run_def]]
  show ?thesis by (simp add: short_run_def be_rows_def)
qed

text \<open>
  C9. The retry loop of generated aliases. A run stores \<open>a\<close> exactly when, for some
  \<open>k < MaxRetries\<close>, \<open>k\<close> attempts in a row collided and the next one stored \<open>a\<close>; and
  when \<open>MaxRetries\<close> attempts in a row collide it gives up with the exhaustion error. A context
  that is done is reported before anything is generated or stored.
\<close>

theorem saveGeneratedAlias_retries:
  "(saveGeneratedAlias rt s ctx url w = (Ok a, w') \<longleftrightarrow>
      (\<exists>k w1. int k < MaxRetries (srv_cfg s) \<and> collisions rt s ctx url w k w1 \<and>
              stores rt s ctx url w1 a w')) \<and>
   (collisions rt s ctx url w (nat (MaxRetries (srv_cfg s))) w2 \<longrightarrow>
      saveGeneratedAlias rt s ctx url w = (Err (exhausted s), w2)) \<and>
   (\<forall>err w3. 0 < MaxRetries (srv_cfg s) \<and> ctx_Err rt ctx w = (Some err, w3) \<longrightarrow>
      saveGeneratedAlias rt s ctx url w = (Err (op_wrap save_generated_op err), w3))"
proof (intro conjI impI allI iffI)
  assume "saveGeneratedAlias rt s ctx url w = (Ok a, w')"
  then show "\<exists>k w1. int k < MaxRetries (srv_cfg s) \<and> collisions rt s ctx url w k w1 \<and>
      stores rt s ctx url w1 a w'"
    unfolding saveGeneratedAlias_def by (auto dest!: save_attempts_Ok simp: zless_nat_eq_int_zless)
next
  assume "\<exists>k w1. int k < MaxRetries (srv_cfg s) \<and> collisions rt s ctx url w k w1 \<and>
      stores rt s ctx url w1 a w'"
  then show "saveGeneratedAlias rt s ctx url w = (Ok a, w')"
    by (auto simp: saveGeneratedAlias_def zless_nat_eq_int_zless intro: save_attempts_stores)
next
  assume "collisions rt s ctx url w (nat (MaxRetries (srv_cfg s))) w2"
  then show "saveGeneratedAlias rt s ctx url w = (Err (exhausted s), w2)"
    by (simp add: saveGeneratedAlias_def save_attempts_exhausted)
next
  fix err w3
  assume "0 < MaxRetries (srv_cfg s) \<and> ctx_Err rt ctx w = (Some err, w3)"
  then show "saveGeneratedAlias rt s ctx url w = (Err (op_wrap save_generated_op err), w3)"
    by (cases "nat (MaxRetries (srv_cfg s))") (auto simp: saveGeneratedAlias_def)
qed

text \<open>
  Two saves of the same generated alias with one attempt each: the second collides and gives up.
\<close>

definition taken_state :: "backend cached" where
  "taken_state = (0, empty_backend\<lparr>be_table := [''ABCDEF'' \<mapsto> (1, ''https://go.dev'')], be_seq := 1,
     be_entropy := [0, 1, 2, 3, 4, 5]\<rparr>)"

definition collided :: "backend cached" where
  "collided = snd (saveGeneratedAlias be_rt (be_service Minute 6 1) Background ''https://b.example'' taken_state)"

theorem saveGeneratedAlias_retries_witness:
  "collisions be_rt (be_service Minute 6 1) Background ''https://b.example'' taken_state 1 collided \<and>
   saveGeneratedAlias be_rt (be_service Minute 6 1) Background ''https://b.example'' taken_state =
     (Err (exhausted (be_service Minute 6 1)), collided)"
proof -
  let ?s = "be_service Minute 6 1"
  have gen: "\<exists>s2. Generate (random_New be_reader 6 []) taken_state = (Ok ''ABCDEF'', s2) \<and>
      st_Save (srv_repository ?s) Background ''https://b.example'' ''ABCDEF'' s2 =
        (Some (op_wrap ''storage.postgres.Save'' (Sentinel ErrURLExist)), collided)"
    by (simp add: taken_state_def collided_def service_eval)
  then have c: "collisions be_rt ?s Background ''https://b.example'' taken_state 1 collided"
    using collision [OF _ _ _ _ no_collision, of be_rt Background taken_state taken_state ?s "''ABCDEF''"]
    by (auto simp: taken_state_def service_eval)
  then show ?thesis
    using saveGeneratedAlias_retries [of be_rt ?s Background "''https://b.example''" taken_state] by simp
qed


text \<open>
  C4. A shortened link resolves, if the cache agreed with the database before the save: when
  \<open>Save\<close> returned the alias \<open>a\<close>, a \<open>Get\<close> of \<open>a\<close> that follows it returns exactly the trimmed
  url, or fails with an error other than \<open>ErrURLNotFound\<close>; it never reports the link missing and
  never returns another url. The generator is one of aliases that are not empty. Where cache and
  database did not agree before, an old entry of the alias can be returned instead (lemma
  \<open>reused_alias_resolves_to_old_url\<close> of \<open>Cache_Properties\<close>).
\<close>

theorem Save_then_Get:
  assumes "resolving_service s rows rt I len \<Sigma>" and "I w"
    and "Service_Save rt s x url alias w = (Ok a, w1)"
    and "Service_Get s x' a w1 = (r, w2)"
  shows "r = Inr (TrimSpace url) \<or> (\<exists>e. r = Inl e \<and> \<not> errors_Is e ErrURLNotFound)"
  by (rule resolving_service.Save_resolves [OF assms])

theorem Save_then_Get_witness:
  "fst (Service_Get (be_service Minute 6 2) Background ''ABCDEF'' (snd short_run)) = Inr ''https://go.dev''"
proof -
  let ?get = "Service_Get (be_service Minute 6 2) Background ''ABCDEF'' (snd short_run)"
  have co: "coherent be_rows be_kv (with_entropy [0, 1, 2, 3, 4, 5])"
    by (simp add: coherent_def with_entropy_def empty_backend_def be_kv_def map_le_def)
  have "\<exists>u. fst ?get = Inr u" by (simp add: short_run_def service_eval)
  moreover have "fst ?get = Inr (TrimSpace '' https://go.dev '') \<or>
      (\<exists>e. fst ?get = Inl e \<and> \<not> errors_Is e ErrURLNotFound)"
    using Save_then_Get [OF be_res.resolving_service_axioms co short_run [unfolded short_run_def],
        of Background "fst ?get" "snd ?get"] by (simp add: short_run_def)
  ultimately show ?thesis by auto
qed

text \<open>
  C18. A deleted link is gone: when \<open>Delete\<close> returns no error the link existed and only it is
  removed from the database; and if the breaker has not tripped up to then, a \<open>Get\<close> of the
  same alias finds no url, neither in Redis nor in the database.
\<close>

theorem Delete_then_Get:
  assumes "cached_deployment c rows rt kv" and "srv_repository s = cache_storage rt c"
    and "coherent rows kv w" and "Service_Delete s x a w = (None, w1)"
  shows "rows (snd w) (TrimSpace a) \<noteq> None \<and> rows (snd w1) = (rows (snd w))(TrimSpace a := None) \<and>
         (fst w1 = 0 \<longrightarrow> (\<forall>x' u w2. Service_Get s x' a w1 \<noteq> (Inr u, w2)))"
proof -
  have st: "cached_store c rows rt kv" using assms(1) by (rule cached_deployment.axioms(1))
  from assms(2,4) have del: "Cache_Delete rt c x (TrimSpace a) w = (None, w1)"
    by (auto simp: Service_Delete_def Let_def split: if_splits prod.splits option.splits)
  from cached_store.Delete_ok [OF st this]
  have rows: "rows (snd w) (TrimSpace a) \<noteq> None" "rows (snd w1) = (rows (snd w))(TrimSpace a := None)"
    by auto
  have "False" if "fst w1 = 0" and get: "Service_Get s x' a w1 = (Inr u, w2)" for x' u w2
  proof -
    have co: "coherent rows kv w1"
      by (rule cached_deployment.Delete_step_coherent [OF assms(1,3) del that(1)]) simp
    from get assms(2) have "Cache_Get rt c x' (TrimSpace a) w1 = (Inr u, w2)"
      by (auto simp: Service_Get_def Let_def split: if_splits prod.splits sum.splits)
    from cached_store.Get_sound [OF st co this] rows show False by simp
  qed
  with rows show ?thesis by blast
qed

theorem Delete_then_Get_witness:
  "fst (Service_Delete (be_service Minute 6 2) Background ''godev'' after_save) = None \<and>
   (\<forall>u w2. Service_Get (be_service Minute 6 2) Background ''godev''
      (snd (Service_Delete (be_service Minute 6 2) Background ''godev'' after_save)) \<noteq> (Inr u, w2))"
proof -
  let ?s = "be_service Minute 6 2"
  let ?del = "Service_Delete ?s Background ''godev'' after_save"
  have co: "coherent be_rows be_kv after_save"
    by (rule be.Save_coherent [OF _ after_save_run])
      (simp add: coherent_def fresh_def empty_backend_def be_kv_def map_le_def)
  have z: "fst ?del = None \<and> fst (snd ?del) = 0" by (simp add: after_save_def service_eval)
  then have run: "?del = (None, snd ?del)" by (metis prod.collapse)
  from Delete_then_Get [OF be.cached_deployment_axioms be_service_simps(1) co run] z
  show ?thesis by blast
qed

end
