(* ===== verification/Handler_Properties.thy ===== *)
theory Handler_Properties
  imports Handlers Service_Properties
begin

text \<open>
  The properties of the link handlers: what each status code says about the stored links, where
  redirects can lead, and how much of a request body is read.
\<close>

section \<open>Runs of the link handlers\<close>

text \<open>The worlds the three handlers lead to, with any requests, in any order.\<close>

inductive site_run ::
  "'v validator_lib \<Rightarrow> (body_reader \<Rightarrow> go_error + SaveRequest) \<Rightarrow> (string \<Rightarrow> bool) \<Rightarrow>
   ('w, 'v) Handler \<Rightarrow> 'w \<Rightarrow> 'w \<Rightarrow> bool"
  for lib :: "'v validator_lib" and dec :: "body_reader \<Rightarrow> go_error + SaveRequest"
    and ok :: "string \<Rightarrow> bool" and h :: "('w, 'v) Handler" and w0 :: 'w where
  site_start: "site_run lib dec ok h w0 w0"
| site_save: "site_run lib dec ok h w0 w \<Longrightarrow> Handler_Save lib dec h r w = (out, w') \<Longrightarrow> site_run lib dec ok h w0 w'"
| site_get: "site_run lib dec ok h w0 w \<Longrightarrow> Handler_Get ok h r w = (out, w') \<Longrightarrow> site_run lib dec ok h w0 w'"
| site_delete: "site_run lib dec ok h w0 w \<Longrightarrow> Handler_Delete h r w = (out, w') \<Longrightarrow> site_run lib dec ok h w0 w'"

text \<open>A handler on a guarded service that only lets web addresses in.\<close>

locale guarded_site = validator_engine lib custom builtin + guarded_service s safe http_url rt
  for lib :: "'v validator_lib" and custom :: "'v \<Rightarrow> string \<rightharpoonup> (string \<Rightarrow> bool)"
    and builtin :: "tag \<Rightarrow> string \<Rightarrow> bool" and s :: "'w Service" and safe :: "'w \<Rightarrow> bool"
    and rt :: "'w runtime" +
  fixes ok :: "string \<Rightarrow> bool" and v :: 'v
  assumes validator: "validation_New ok lib = Inr v"
begin

lemma Handler_Save_safe:
  assumes "safe w" and "Handler_Save lib dec (Handler_New (url_service_of rt s) v) r w = (out, w')"
  shows "safe w'"
  using assms(2)
proof (cases rule: Handler_Save_cases)
  case (rejected resp)
  with assms(1) show ?thesis by simp
next
  case (reached req res)
  from reached(2) SaveRequest_valid [OF validator] have "http_url (TrimSpace (sr_URL req))"
    by (auto intro: http_url_TrimSpace url_scheme_http)
  from Save_guarded [OF assms(1) this] reached(3) show ?thesis by simp
qed

lemma Handler_Get_safe:
  assumes "safe w" and "Handler_Get ok' (Handler_New (url_service_of rt s) v) r w = (out, w')"
  shows "safe w' \<and> (\<forall>resp l. out = Responds resp \<longrightarrow> hr_location resp = Some l \<longrightarrow> http_url l)"
proof (cases "URLParam r ''alias'' = []")
  case True
  with assms show ?thesis by (auto simp: Handler_Get_def)
next
  case False
  obtain g w1 where g: "Service_Get s (req_Context r) (URLParam r ''alias'') w = (g, w1)"
    by (metis surj_pair)
  from Get_guarded [OF assms(1) g] assms(2) g False show ?thesis
    by (cases g) (auto simp: Handler_Get_eq split: if_splits intro: http_url_redirect [THEN conjunct2])
qed

lemma Handler_Delete_safe:
  assumes "safe w" and "Handler_Delete (Handler_New (url_service_of rt s) v) r w = (out, w')"
  shows "safe w'"
proof (cases "URLParam r ''alias'' = []")
  case True
  with assms show ?thesis by (auto simp: Handler_Delete_def)
next
  case False
  obtain g w1 where g: "Service_Delete s (req_Context r) (URLParam r ''alias'') w = (g, w1)"
    by (metis surj_pair)
  from Delete_guarded [OF assms(1) g] assms(2) g False show ?thesis
    by (cases g) (auto simp: Handler_Delete_eq)
qed

lemma site_run_safe:
  "site_run lib dec ok' (Handler_New (url_service_of rt s) v) w w' \<Longrightarrow> safe w \<Longrightarrow> safe w'"
  by (induction rule: site_run.induct)
    (blast dest: Handler_Save_safe Handler_Get_safe Handler_Delete_safe)+

end

interpretation be_site: guarded_site engine "\<lambda>v. v" eng_builtin "be_service ttl len n"
    "all_links http_url be_rows be_kv" be_rt "\<lambda>_. True" engine_v for ttl len n
  by (intro guarded_site.intro guarded_site_axioms.intro eng.validator_engine_axioms
      be_guard.guarded_service_axioms engine_New)

section \<open>Evaluation\<close>

text \<open>A decoder for the witnesses: the url and the alias separated by a space.\<close>

definition dec_words :: "body_reader \<Rightarrow> go_error + SaveRequest" where
  "dec_words b =
     (case snd b of Some e \<Rightarrow> Inl e
      | None \<Rightarrow> let (u, a) = Cut (fst b) (CHR '' '') in Inr \<lparr>sr_URL = u, sr_Alias = a\<rparr>)"

definition blank_request :: request where
  "blank_request = \<lparr>req_Method = ''GET'', req_Path = ''/'', req_RawPath = [], req_RemoteAddr = ''10.0.0.1:4000'',
     req_Header = [], req_Body = [], req_Params = [], req_Context = Background\<rparr>"

definition post_go :: request where
  "post_go = blank_request\<lparr>req_Method := ''POST'', req_Path := ''/url'', req_Body := ''https://go.dev godev''\<rparr>"

definition get_go :: request where
  "get_go = blank_request\<lparr>req_Path := ''/godev'', req_Params := [(''alias'', ''godev'')]\<rparr>"

definition be_handler :: "(backend cached, string \<rightharpoonup> (string \<Rightarrow> bool)) Handler" where
  "be_handler = Handler_New (url_service_of be_rt (be_service Minute 6 2)) engine_v"

lemma post_go_decoded:
  "dec_words (MaxBytesReader (req_Body post_go) maxSaveRequestBytes) = Inr go_request"
  by (simp add: post_go_def MaxBytesReader_def maxSaveRequestBytes_def dec_words_def Cut_def go_request_def)

lemma go_request_valid: "validate_Struct engine engine_v (SaveRequest_rules go_request) = Valid"
  using eng.SaveRequest_valid [OF engine_New, of go_request] go_request_rules
  by (simp add: go_request_def aliasRegexp_MatchString_def)

definition posted :: "backend cached" where
  "posted = snd (Service_Save be_rt (be_service Minute 6 2) Background ''https://go.dev'' ''godev'' fresh)"

lemma post_go_run:
  "Handler_Save engine dec_words be_handler post_go fresh =
   (Responds (Respond 200 (PSave response_Ok ''godev'')), posted)"
proof -
  have "Service_Save be_rt (be_service Minute 6 2) Background ''https://go.dev'' ''godev'' fresh =
      (Ok ''godev'', posted)"
    by (simp add: posted_def service_eval)
  then show ?thesis
    using Handler_Save_valid [of dec_words post_go go_request engine be_handler fresh]
    by (simp add: post_go_decoded go_request_valid [unfolded engine_simps] be_handler_def)
      (simp add: go_request_def post_go_def blank_request_def)
qed


section \<open>Properties\<close>

text \<open>
  C3. What a response to \<open>POST /url\<close> says about the stored links. Status 200: the alias in
  the body was free and is now the only new link, to the trimmed url, which is a web address.
  Status 409: the request named an alias that is taken, and nothing changed. Status 400: nothing
  changed. There is no other status but 500, and in no case is an existing link lost or replaced.
\<close>

theorem POST_url:
  assumes "url_service s rows rt" and "validator_engine lib custom builtin"
    and "validation_New ok lib = Inr v"
    and "Handler_Save lib dec (Handler_New (url_service_of rt s) v) r w = (Responds resp, w')"
  shows "(hr_status resp = 200 \<longrightarrow>
            (\<exists>a req. dec (MaxBytesReader (req_Body r) maxSaveRequestBytes) = Inr req \<and>
               hr_body resp = Json (PSave response_Ok a) \<and> (sr_Alias req \<noteq> [] \<longrightarrow> a = sr_Alias req) \<and>
               rows w a = None \<and> rows w' = (rows w)(a \<mapsto> TrimSpace (sr_URL req)) \<and>
               http_url (TrimSpace (sr_URL req)))) \<and>
         (hr_status resp = 409 \<longrightarrow> rows w' = rows w \<and>
            (\<exists>req. dec (MaxBytesReader (req_Body r) maxSaveRequestBytes) = Inr req \<and>
               sr_Alias req \<noteq> [] \<and> rows w (sr_Alias req) \<noteq> None)) \<and>
         (hr_status resp = 400 \<longrightarrow> rows w' = rows w) \<and>
         hr_status resp \<in> {200, 400, 409, 500} \<and> rows w \<subseteq>\<^sub>m rows w'"
  using assms(4)
proof (cases rule: Handler_Save_cases)
  case (rejected resp')
  then show ?thesis by auto
next
  case (reached req res)
  then have sv: "Service_Save rt s (req_Context r) (sr_URL req) (sr_Alias req) w = (res, w')" by simp
  from reached(2) validator_engine.SaveRequest_valid [OF assms(2,3), of req]
  have url: "http_url (TrimSpace (sr_URL req))" and al: "TrimSpace (sr_Alias req) = sr_Alias req"
    by (auto intro: http_url_TrimSpace url_scheme_http simp: alias_trimmed)
  then have "TrimSpace (sr_URL req) \<noteq> []" by (auto simp: http_url_def)
  note facts = url_service.Save_stored [OF assms(1)] url_service.Save_conflict [OF assms(1)]
    url_service.Save_extends [OF assms(1) sv] url_service.Save_invalid_url [OF assms(1)] this
  have out: "(Responds resp, w') =
    (case res of Ok alias \<Rightarrow> (Responds (Respond 200 (PSave response_Ok alias)), w')
     | Err err \<Rightarrow> (Responds (if errors_Is err ErrURLExist then error_response 409 ''url already exists''
                    else if errors_Is err ErrInvalidURL then error_response 400 ''url is required''
                    else error_response 500 ''failed add url''), w')
     | Panic m \<Rightarrow> (Panics m, w') | Diverges \<Rightarrow> (Hangs, w'))"
    using assms(4) sv
    by (simp only: Handler_Save_valid [where DecodeJSON = dec, OF reached(1,2)]) (auto split: outcome.splits)
  show ?thesis
  proof (cases res)
    case (Ok a)
    with out facts(1) [OF sv [unfolded Ok]] url al reached(1) facts(3) show ?thesis by auto
  next
    case (Err e)
    with out facts(2) [OF sv [unfolded Err]] facts(4) [OF sv [unfolded Err]] facts(3,5) al reached(1)
    show ?thesis by (auto split: if_splits)
  qed (use out in auto)
qed

theorem POST_url_witness:
  "Handler_Save engine dec_words be_handler post_go fresh =
     (Responds (Respond 200 (PSave response_Ok ''godev'')), posted) \<and>
   be_rows (snd posted) = [''godev'' \<mapsto> ''https://go.dev'']"
proof -
  have "be_rows (snd fresh) = Map.empty" by (simp add: fresh_def empty_backend_def be_rows_def)
  with POST_url [OF be_svc.url_service_axioms eng.validator_engine_axioms engine_New
      post_go_run [unfolded be_handler_def]] post_go_decoded post_go_run
  show ?thesis by (auto simp: go_request_def)
qed

text \<open>
  C21. What the responses to \<open>GET /{alias}\<close> and \<open>DELETE /{alias}\<close> say about the stored
  links. A lookup changes no link, and its 404 means that the alias is not stored. A delete
  answers 204 exactly when it removed the link, and only that link; its 404 means that there was
  none and nothing changed.
\<close>

theorem alias_handlers:
  assumes "url_service s rows rt" and "URLParam r ''alias'' \<noteq> []"
  shows "(\<forall>resp w w'. Handler_Get ok (Handler_New (url_service_of rt s) v) r w = (Responds resp, w') \<longrightarrow>
            rows w' = rows w \<and> hr_status resp \<in> {302, 404, 500} \<and>
            (hr_status resp = 404 \<longrightarrow> rows w (TrimSpace (URLParam r ''alias'')) = None)) \<and>
         (\<forall>resp w w'. Handler_Delete (Handler_New (url_service_of rt s) v) r w = (Responds resp, w') \<longrightarrow>
            hr_status resp \<in> {204, 404, 500} \<and>
            (hr_status resp = 204 \<longrightarrow> rows w (TrimSpace (URLParam r ''alias'')) \<noteq> None \<and>
               rows w' = (rows w)(TrimSpace (URLParam r ''alias'') := None)) \<and>
            (hr_status resp = 404 \<longrightarrow> rows w (TrimSpace (URLParam r ''alias'')) = None \<and> rows w' = rows w))"
proof (intro conjI [OF _ allI] allI impI, goal_cases)
  case (1 resp w w')
  then show ?case by (rule url_service.GET_alias [OF assms])
next
  case (2 resp w w')
  then show ?case by (rule url_service.DELETE_alias [OF assms])
qed

definition delete_go :: request where
  "delete_go = get_go\<lparr>req_Method := ''DELETE''\<rparr>"

theorem alias_handlers_witness:
  "Handler_Delete be_handler delete_go fresh = (Responds (error_response 404 ''not found''), fresh) \<and>
   be_rows (snd fresh) ''godev'' = None"
proof -
  have param: "URLParam delete_go ''alias'' \<noteq> []" "TrimSpace (URLParam delete_go ''alias'') = ''godev''"
    by (simp_all add: delete_go_def get_go_def blank_request_def URLParam_def)
  have run: "Handler_Delete be_handler delete_go fresh = (Responds (error_response 404 ''not found''), fresh)"
    by (simp add: Handler_Delete_eq param be_handler_def)
      (simp add: delete_go_def get_go_def blank_request_def URLParam_def service_eval)
  from alias_handlers [OF be_svc.url_service_axioms param(1), THEN conjunct2, rule_format,
      OF run [unfolded be_handler_def]] param(2) run
  show ?thesis by simp
qed

text \<open>
  C2. Where redirects lead: from any state in which every stored row and every live cache entry
  is an \<open>http\<close> or \<open>https\<close> address, through any sequence of the three handlers on any
  requests, whatever the servers answer and however stale the cache is, every \<open>Location\<close> that
  \<open>GET /{alias}\<close> sends starts with \<open>http:\<close> or \<open>https:\<close>. No stored link turns into
  a \<open>javascript:\<close>, \<open>data:\<close> or local redirect.
\<close>

theorem redirects_are_web_addresses:
  assumes "guarded_site lib custom builtin s safe rt ok v"
    and "site_run lib dec ok' (Handler_New (url_service_of rt s) v) w0 w" and "safe w0"
    and "Handler_Get ok' (Handler_New (url_service_of rt s) v) r w = (Responds resp, w')"
  shows "hr_location resp = None \<or> (\<exists>l. hr_location resp = Some l \<and> http_url l)"
proof -
  have "safe w" by (rule guarded_site.site_run_safe [OF assms(1-3)])
  from guarded_site.Handler_Get_safe [OF assms(1) this assms(4)] show ?thesis
    by (cases "hr_location resp") auto
qed

definition got :: "handled \<times> backend cached" where
  "got = Handler_Get (\<lambda>_. True) be_handler get_go posted"

lemma got_run: "got = (Responds (http_Redirect (\<lambda>_. True) get_go ''https://go.dev'' 302), snd got)"
proof -
  have "URLParam get_go ''alias'' = ''godev''" by (simp add: get_go_def URLParam_def)
  then show ?thesis
    by (simp add: got_def Handler_Get_eq be_handler_def)
      (simp add: get_go_def blank_request_def posted_def service_eval)
qed

theorem redirects_are_web_addresses_witness:
  "\<exists>l. hr_location (http_Redirect (\<lambda>_. True) get_go ''https://go.dev'' 302) = Some l \<and> http_url l"
proof -
  have run: "site_run engine dec_words (\<lambda>_. True) be_handler fresh posted"
    by (rule site_save [OF site_start post_go_run])
  have safe: "all_links http_url be_rows be_kv fresh"
    by (simp add: all_links_def fresh_def empty_backend_def be_rows_def be_kv_def)
  from redirects_are_web_addresses [OF be_site.guarded_site_axioms run [unfolded be_handler_def] safe
      got_run [unfolded got_def be_handler_def]]
  show ?thesis by simp
qed

end
