(* ===== verification/Bootstrap.thy ===== *)
theory Bootstrap
  imports App_Config Storage_Init Site
begin

text \<open>
  \<open>internal/bootstrap\<close>: the providers of \<open>providers.go\<close>, the injectors of \<open>wire_gen.go\<close>,
  \<open>NewServer\<close> and the constructor of \<open>internal/app\<close>. The libraries are gathered in one record.
  The injectors return \<open>None\<close> where the code would not return. The theorems show what an
  injector leaves open when it fails, what the cleanup it returns closes, and which
  configurations it accepts.
\<close>

section \<open>Logging\<close>

datatype log_handler = TextHandler | JSONHandler

record logger =
  lg_handler :: log_handler
  lg_level :: log_level
  lg_attrs :: attrs

definition logger_With :: "logger \<Rightarrow> attrs \<Rightarrow> logger" where
  "logger_With l ats = l\<lparr>lg_attrs := lg_attrs l @ ats\<rparr>"

text \<open>The handlers drop the entries below their level.\<close>

definition slog_Enabled :: "logger \<Rightarrow> log_level \<Rightarrow> bool" where
  "slog_Enabled l lv \<longleftrightarrow> lg_level l \<le> lv"

definition envLocal :: string where
  "envLocal = ''local''"

definition envDev :: string where
  "envDev = ''dev''"

definition envProd :: string where
  "envProd = ''prod''"

definition provideLogger :: "AppConfig \<Rightarrow> logger" where
  "provideLogger cfg =
     (let base =
        (if cfg_Env cfg = envLocal then \<lparr>lg_handler = TextHandler, lg_level = LDebug, lg_attrs = []\<rparr>
         else if cfg_Env cfg = envDev then \<lparr>lg_handler = JSONHandler, lg_level = LDebug, lg_attrs = []\<rparr>
         else if cfg_Env cfg = envProd then \<lparr>lg_handler = JSONHandler, lg_level = LInfo, lg_attrs = []\<rparr>
         else \<lparr>lg_handler = JSONHandler, lg_level = LInfo, lg_attrs = []\<rparr>)
      in logger_With base [(''service'', ''url-shortener'')])"

section \<open>The libraries\<close>

record ('w, 'p, 'r, 'c, 'v) libs =
  lib_rt :: "'w runtime"
  lib_pgx :: "('w, 'p) pgx_lib"
  lib_redis :: "('w, 'r) redis_lib"
  lib_grpc :: "('w, 'c) grpc_lib"
  lib_AuthClient :: "'c \<Rightarrow> 'w AuthClient"
  lib_group_Do :: "string \<Rightarrow> ('w cached, go_error + string) io \<Rightarrow> ('w cached, go_error + string) io"
  lib_rand :: "'w cached reader"
  lib_validator :: "'v validator_lib"
  lib_authority_ok :: "string \<Rightarrow> bool"
  lib_ParseAddress_ok :: "string \<Rightarrow> bool"
  lib_DecodeSave :: "body_reader \<Rightarrow> go_error + SaveRequest"
  lib_DecodeRegister :: "body_reader \<Rightarrow> go_error + registerRequest"
  lib_DecodeLogin :: "body_reader \<Rightarrow> go_error + loginRequest"
  lib_DecodeRefresh :: "body_reader \<Rightarrow> go_error + refreshRequest"
  lib_foreign :: "go_error \<Rightarrow> string"
  lib_jwt_Parse :: "'w cached jwt_parse"
  lib_oob :: "rat \<Rightarrow> 64 word"
  lib_float64 :: "rat \<Rightarrow> rat"
  lib_RequestID :: "'w cached web middleware"
  lib_Recoverer :: "'w cached web middleware"
  lib_emit :: "logger \<Rightarrow> log_level \<Rightarrow> string \<Rightarrow> attrs \<Rightarrow> nat \<Rightarrow> 'w cached web \<Rightarrow> 'w cached web"

section \<open>Providers\<close>

definition defaultSSODialTimeout :: duration where
  "defaultSSODialTimeout = 5 * Second"

definition provideServiceConfig :: "AppConfig \<Rightarrow> Config" where
  "provideServiceConfig cfg = \<lparr>MaxRetries = cfg_MaxRetries cfg\<rparr>"

definition provideAliasGenerator :: "'w reader \<Rightarrow> AppConfig \<Rightarrow> 'w Generator" where
  "provideAliasGenerator rand cfg = random_New rand (cfg_AliasLength cfg) []"

definition provideRedis ::
  "'w runtime \<Rightarrow> ('w, 'r) redis_lib \<Rightarrow> AppConfig \<Rightarrow> ('w, go_error + 'r \<times> ('w \<Rightarrow> 'w)) io" where
  "provideRedis rt lib cfg = InitRedis rt lib (cfg_RedisAddr cfg)"

definition provideDatabaseURL :: "AppConfig \<Rightarrow> string" where
  "provideDatabaseURL cfg = cfg_DatabaseURL cfg"

definition provideCacheTTL :: "AppConfig \<Rightarrow> duration" where
  "provideCacheTTL cfg = cfg_TTL cfg"

definition provideValidator :: "(string \<Rightarrow> bool) \<Rightarrow> 'v validator_lib \<Rightarrow> go_error + 'v" where
  "provideValidator authority_ok lib = validation_New authority_ok lib"

definition provideSSOClientOptions :: "AppConfig \<Rightarrow> Options" where
  "provideSSOClientOptions cfg =
     (let timeout = (if sso_DialTimeout (cfg_SSO cfg) = 0 then defaultSSODialTimeout
                     else sso_DialTimeout (cfg_SSO cfg))
      in \<lparr>opt_Addr = sso_Addr (cfg_SSO cfg), opt_ApplicationID = sso_ApplicationID (cfg_SSO cfg),
          opt_DialTimeout = timeout, opt_TLS = None\<rparr>)"

definition provideSSOClient ::
  "'w runtime \<Rightarrow> ('w, 'c) grpc_lib \<Rightarrow> ('c \<Rightarrow> 'w AuthClient) \<Rightarrow> Options \<Rightarrow> 'w \<Rightarrow>
   ((go_error + ('w, 'c) Client \<times> ('w \<Rightarrow> 'w)) \<times> 'w) option" where
  "provideSSOClient rt lib NewAuthClient opts w =
     (case Client_New rt lib NewAuthClient Background opts w of
        None \<Rightarrow> None
      | Some (Inl err, w1) \<Rightarrow> Some (Inl (Wrap ''connect to sso: '' err []), w1)
      | Some (Inr client, w1) \<Rightarrow> Some (Inr (client, \<lambda>w. snd (Client_Close lib client w)), w1))"

definition provideAuthVerifier :: "AppConfig \<Rightarrow> go_error + Verifier" where
  "provideAuthVerifier cfg = NewVerifier (sso_AppSecret (cfg_SSO cfg)) (sso_ApplicationID (cfg_SSO cfg))"

section \<open>Migrations\<close>

record ('w, 'm) migrate_lib =
  migrate_New :: "string \<Rightarrow> string \<Rightarrow> ('w, go_error + 'm) io"
  migrate_Up :: "'m \<Rightarrow> ('w, go_error option) io"
  migrate_Close :: "'m \<Rightarrow> 'w \<Rightarrow> 'w"

definition RunMigrations :: "('w, 'm) migrate_lib \<Rightarrow> string \<Rightarrow> AppConfig \<Rightarrow> ('w, go_error option) io" where
  "RunMigrations lib migrationsPath cfg w =
     (let op = ''bootstrap.RunMigrations'' in
      case migrate_New lib migrationsPath (cfg_DatabaseURL cfg) w of
        (Inl err, w1) \<Rightarrow> (Some (Wrap (op @ '': create migrate instance: '') err []), w1)
      | (Inr m, w1) \<Rightarrow>
          (case migrate_Up lib m w1 of
             (Some err, w2) \<Rightarrow>
               (if errors_Is err MigrateErrNoChange then (None, migrate_Close lib m w2)
                else (Some (Wrap (op @ '': apply migrations: '') err []), migrate_Close lib m w2))
           | (None, w2) \<Rightarrow> (None, migrate_Close lib m w2)))"

section \<open>The server\<close>

record 'h http_server =
  server_Addr :: string
  server_Handler :: 'h
  server_ReadTimeout :: duration
  server_WriteTimeout :: duration
  server_IdleTimeout :: duration

definition NewServer :: "AppConfig \<Rightarrow> 'h \<Rightarrow> 'h http_server" where
  "NewServer cfg handler =
     \<lparr>server_Addr = hs_Address (cfg_ServerConfig cfg), server_Handler = handler,
      server_ReadTimeout = hs_Timeout (cfg_ServerConfig cfg),
      server_WriteTimeout = hs_Timeout (cfg_ServerConfig cfg),
      server_IdleTimeout = hs_IdleTimeout (cfg_ServerConfig cfg)\<rparr>"

record 'h App =
  app_log :: logger
  app_server :: "'h http_server"

definition App_New :: "logger \<Rightarrow> 'h http_server \<Rightarrow> 'h App" where
  "App_New lg server = \<lparr>app_log = lg, app_server = server\<rparr>"

section \<open>Injectors\<close>

text \<open>
  The cache adds its circuit-breaker field to the world the drivers live in: what runs on the
  drivers' world leaves that field alone.
\<close>

definition on_world :: "('w, 'a) io \<Rightarrow> ('w cached, 'a) io" where
  "on_world f s = (case f (snd s) of (x, w) \<Rightarrow> (x, (fst s, w)))"

definition cached_client :: "('w, 'c) Client \<Rightarrow> ('w cached, 'c) Client" where
  "cached_client c =
     \<lparr>cl_conn = cl_conn c,
      cl_api =
        \<lparr>api_Register = (\<lambda>x e p. on_world (api_Register (cl_api c) x e p)),
         api_Authenticate = (\<lambda>x e p a. on_world (api_Authenticate (cl_api c) x e p a)),
         api_RefreshTokens = (\<lambda>x t a. on_world (api_RefreshTokens (cl_api c) x t a)),
         api_Logout = (\<lambda>x t. on_world (api_Logout (cl_api c) x t))\<rparr>,
      cl_appID = cl_appID c\<rparr>"

text \<open>What the injectors pass to \<open>NewRouter\<close>.\<close>

definition router_site ::
  "('w, 'p, 'r, 'c, 'v) libs \<Rightarrow> logger \<Rightarrow> ('w cached, 'v) Handler \<Rightarrow> 'w cached AuthHandler \<Rightarrow> Verifier \<Rightarrow>
   'p \<Rightarrow> 'r \<Rightarrow> 'w cached site" where
  "router_site d lg h ah v db rdb =
     \<lparr>site_RequestID = lib_RequestID d, site_Recoverer = lib_Recoverer d,
      site_emit = (let l = logger_With lg [(''component'', ''middleware/Logger'')] in
        (\<lambda>lv msg ats n s. if slog_Enabled l lv then lib_emit d l lv msg ats n s else s)),
      site_save = Handler_Save (lib_validator d) (lib_DecodeSave d) h,
      site_get = Handler_Get (lib_authority_ok d) h,
      site_delete = Handler_Delete h,
      site_register = AuthHandler_Register (lib_ParseAddress_ok d) (lib_DecodeRegister d) ah,
      site_login = AuthHandler_Login (lib_ParseAddress_ok d) (lib_DecodeLogin d) ah,
      site_refresh = AuthHandler_Refresh (lib_DecodeRefresh d) ah,
      site_logout = AuthHandler_Logout (lib_DecodeRefresh d) ah,
      site_verify = Verify (lib_jwt_Parse d) (lib_oob d) v,
      site_probe = ReadinessProbe (\<lambda>x. on_world (PostgresRepo_Ping (pgxpool_ops (lib_pgx d) db) x))
                     (\<lambda>x. on_world (rdb_Ping (redis_ops (lib_redis d) rdb) x))\<rparr>"

definition InitializeRouter ::
  "('w, 'p, 'r, 'c, 'v) libs \<Rightarrow> AppConfig \<Rightarrow> 'w \<Rightarrow>
   ((go_error + 'w cached web Mux \<times> ('w \<Rightarrow> 'w)) \<times> 'w) option" where
  "InitializeRouter d cfg w =
     (let logger = provideLogger cfg; string2 = provideDatabaseURL cfg in
      case InitPostgres (lib_rt d) (lib_pgx d) string2 w of
        (Inl err, w1) \<Rightarrow> Some (Inl err, w1)
      | (Inr (postgresRepo, cleanup), w1) \<Rightarrow>
      (case provideRedis (lib_rt d) (lib_redis d) cfg w1 of
        (Inl err, w2) \<Rightarrow> Some (Inl err, cleanup w2)
      | (Inr (client, cleanup2), w2) \<Rightarrow>
      (let duration = provideCacheTTL cfg;
           cache = Cache_New (lib_group_Do d) (postgres_storage (lib_rt d) (pgxpool_ops (lib_pgx d) postgresRepo))
                     (redis_ops (lib_redis d) client) duration;
           generator = provideAliasGenerator (lib_rand d) cfg;
           serviceConfig = provideServiceConfig cfg
       in case Service_New (cache_storage (lib_rt d) cache) (Generate generator) serviceConfig of
        Inl err \<Rightarrow> Some (Inl err, cleanup (cleanup2 w2))
      | Inr serviceService \<Rightarrow>
      (case provideValidator (lib_authority_ok d) (lib_validator d) of
        Inl err \<Rightarrow> Some (Inl err, cleanup (cleanup2 w2))
      | Inr validate \<Rightarrow>
      (let handler = Handler_New (url_service_of (lift_runtime (lib_rt d)) serviceService) validate;
           options = provideSSOClientOptions cfg
       in case provideSSOClient (lib_rt d) (lib_grpc d) (lib_AuthClient d) options w2 of
        None \<Rightarrow> None
      | Some (Inl err, w3) \<Rightarrow> Some (Inl err, cleanup (cleanup2 w3))
      | Some (Inr (ssoclientClient, cleanup3), w3) \<Rightarrow>
      (let authHandler = NewAuth (sso_service (lift_runtime (lib_rt d)) (lib_foreign d) (cached_client ssoclientClient))
       in case provideAuthVerifier cfg of
        Inl err \<Rightarrow> Some (Inl err, cleanup (cleanup2 (cleanup3 w3)))
      | Inr verifier \<Rightarrow>
          Some (Inr (NewRouter (lib_float64 d) (lift_runtime (lib_rt d))
                       (router_site d logger handler authHandler verifier postgresRepo client),
                     \<lambda>w. cleanup (cleanup2 (cleanup3 w))), w3)))))))"

definition InitializeApp ::
  "('w, 'p, 'r, 'c, 'v) libs \<Rightarrow> AppConfig \<Rightarrow> 'w \<Rightarrow>
   ((go_error + 'w cached web Mux App \<times> ('w \<Rightarrow> 'w)) \<times> 'w) option" where
  "InitializeApp d cfg w =
     (let logger = provideLogger cfg; string2 = provideDatabaseURL cfg in
      case InitPostgres (lib_rt d) (lib_pgx d) string2 w of
        (Inl err, w1) \<Rightarrow> Some (Inl err, w1)
      | (Inr (postgresRepo, cleanup), w1) \<Rightarrow>
      (case provideRedis (lib_rt d) (lib_redis d) cfg w1 of
        (Inl err, w2) \<Rightarrow> Some (Inl err, cleanup w2)
      | (Inr (client, cleanup2), w2) \<Rightarrow>
      (let duration = provideCacheTTL cfg;
           cache = Cache_New (lib_group_Do d) (postgres_storage (lib_rt d) (pgxpool_ops (lib_pgx d) postgresRepo))
                     (redis_ops (lib_redis d) client) duration;
           generator = provideAliasGenerator (lib_rand d) cfg;
           serviceConfig = provideServiceConfig cfg
       in case Service_New (cache_storage (lib_rt d) cache) (Generate generator) serviceConfig of
        Inl err \<Rightarrow> Some (Inl err, cleanup (cleanup2 w2))
      | Inr serviceService \<Rightarrow>
      (case provideValidator (lib_authority_ok d) (lib_validator d) of
        Inl err \<Rightarrow> Some (Inl err, cleanup (cleanup2 w2))
      | Inr validate \<Rightarrow>
      (let handler = Handler_New (url_service_of (lift_runtime (lib_rt d)) serviceService) validate;
           options = provideSSOClientOptions cfg
       in case provideSSOClient (lib_rt d) (lib_grpc d) (lib_AuthClient d) options w2 of
        None \<Rightarrow> None
      | Some (Inl err, w3) \<Rightarrow> Some (Inl err, cleanup (cleanup2 w3))
      | Some (Inr (ssoclientClient, cleanup3), w3) \<Rightarrow>
      (let authHandler = NewAuth (sso_service (lift_runtime (lib_rt d)) (lib_foreign d) (cached_client ssoclientClient))
       in case provideAuthVerifier cfg of
        Inl err \<Rightarrow> Some (Inl err, cleanup (cleanup2 (cleanup3 w3)))
      | Inr verifier \<Rightarrow>
          (let httpHandler = NewRouter (lib_float64 d) (lift_runtime (lib_rt d))
                       (router_site d logger handler authHandler verifier postgresRepo client);
               server = NewServer cfg httpHandler;
               appApp = App_New logger server
           in Some (Inr (appApp, \<lambda>w. cleanup (cleanup2 (cleanup3 w))), w3))))))))"

text \<open>The state the closures and fields created by the injectors start with.\<close>

definition app_start :: "'w \<Rightarrow> 'w cached web" where
  "app_start w = NewRouter_start (0, w)"

section \<open>What the injectors leave open\<close>

text \<open>The part of a configuration that start-up insists on.\<close>

definition accepted_config :: "AppConfig \<Rightarrow> bool" where
  "accepted_config cfg \<longleftrightarrow> 0 < cfg_MaxRetries cfg \<and> sso_Addr (cfg_SSO cfg) \<noteq> [] \<and>
     sso_ApplicationID (cfg_SSO cfg) \<noteq> 0 \<and> sso_AppSecret (cfg_SSO cfg) \<noteq> []"

lemma provideSSOClient_log:
  assumes "resource_log rt grpc changes pgx rds lg"
  shows "\<exists>res w'. provideSSOClient rt grpc mk opts w = Some (res, w') \<and>
    ((\<exists>e hs. res = Inl e \<and> lg w' = lg w @ map Opened hs @ map Closed (rev hs) \<and> length hs \<le> 1) \<or>
     (\<exists>c cl. res = Inr (c, cl) \<and> lg w' = lg w @ [Opened (ConnRes (cl_conn c))] \<and>
        (\<forall>v. lg (cl v) = lg v @ [Closed (ConnRes (cl_conn c))]) \<and> Options_Validate opts = None))"
proof -
  from resource_log.Client_New_log [OF assms, of mk Background opts w] obtain res w' where
    run: "Client_New rt grpc mk Background opts w = Some (res, w')" and
    cases: "(\<exists>e hs. res = Inl e \<and> lg w' = lg w @ map Opened hs @ map Closed (rev hs) \<and> length hs \<le> 1) \<or>
      (\<exists>c. res = Inr c \<and> lg w' = lg w @ [Opened (ConnRes (cl_conn c))] \<and> Options_Validate opts = None)" by blast
  have close: "lg (snd (Client_Close grpc c v)) = lg v @ [Closed (ConnRes (cl_conn c))]" for c :: "('a, 'b) Client" and v
    unfolding Client_Close_def by (rule resource_log.log_conn_close [OF assms prod.collapse [symmetric]])
  from cases show ?thesis
    by (elim disjE exE conjE) (auto simp: provideSSOClient_def run close)
qed

text \<open>One case per way the injector ends; \<open>h\<close>, \<open>cl\<close> are what it returns when it succeeds.\<close>

lemma InitializeRouter_log:
  assumes "resource_log (lib_rt d) (lib_grpc d) changes (lib_pgx d) (lib_redis d) lg"
  obtains (released) e w' hs where "InitializeRouter d cfg w = Some (Inl e, w')" "length hs \<le> 3"
      "lg w' = lg w @ map Opened hs @ map Closed (rev hs)"
  | (redis) e w' p r where "InitializeRouter d cfg w = Some (Inl (op_wrap ''redis.InitRedis'' e), w')"
      "lg w' = lg w @ [Opened (PoolRes p), Opened (RedisRes r), Closed (PoolRes p)]"
  | (ready) h cl w' p r c where "InitializeRouter d cfg w = Some (Inr (h, cl), w')" "accepted_config cfg"
      "lg w' = lg w @ map Opened [PoolRes p, RedisRes r, ConnRes c]"
      "\<And>v. lg (cl v) = lg v @ map Closed [ConnRes c, RedisRes r, PoolRes p]"
proof -
  note defs = InitializeRouter_def Let_def provideDatabaseURL_def
  obtain pg w1 where pg: "InitPostgres (lib_rt d) (lib_pgx d) (cfg_DatabaseURL cfg) w = (pg, w1)" by (metis surj_pair)
  show thesis
    using resource_log.InitPostgres_log [OF assms pg]
  proof (elim disjE exE conjE)
    fix e hs assume "pg = Inl e" and "lg w1 = lg w @ map Opened hs @ map Closed (rev hs)" and "length hs \<le> 1"
    with pg show thesis by (intro released [of e w1 hs]) (auto simp: defs)
  next
    fix p cl assume p: "pg = Inr (p, cl)" and l1: "lg w1 = lg w @ [Opened (PoolRes p)]"
      and cl: "\<forall>v. lg (cl v) = lg v @ [Closed (PoolRes p)]"
    obtain rd w2 where rd: "InitRedis (lib_rt d) (lib_redis d) (cfg_RedisAddr cfg) w1 = (rd, w2)" by (metis surj_pair)
    from resource_log.InitRedis_log [OF assms rd] obtain r where l2: "lg w2 = lg w1 @ [Opened (RedisRes r)]"
      and rd_cases: "(\<exists>e. rd = Inl e) \<or> (\<exists>cl2. rd = Inr (r, cl2) \<and> (\<forall>v. lg (cl2 v) = lg v @ [Closed (RedisRes r)]))"
      by blast
    from rd_cases show thesis
    proof (elim disjE exE conjE)
      fix e assume e: "rd = Inl e"
      then obtain e0 where "e = op_wrap ''redis.InitRedis'' e0"
        using rd by (auto simp: InitRedis_def Let_def split: prod.splits option.splits)
      with e pg p rd l1 l2 cl show thesis
        by (intro redis [of e0 "cl w2" p r]) (auto simp: defs provideRedis_def)
    next
      fix cl2 assume r: "rd = Inr (r, cl2)" and cl2: "\<forall>v. lg (cl2 v) = lg v @ [Closed (RedisRes r)]"
      have l: "lg w2 = lg w @ map Opened [PoolRes p, RedisRes r]" using l1 l2 by simp
      show thesis
      proof (cases "Config_validate (provideServiceConfig cfg) = None \<and>
          (\<exists>v. provideValidator (lib_authority_ok d) (lib_validator d) = Inr v)")
        case False
        then have "\<exists>e. InitializeRouter d cfg w = Some (Inl e, cl (cl2 w2))"
          using pg p rd r
          by (cases "provideValidator (lib_authority_ok d) (lib_validator d)";
              cases "Config_validate (provideServiceConfig cfg)")
            (auto simp: defs provideRedis_def Service_New_def)
        then obtain e where e: "InitializeRouter d cfg w = Some (Inl e, cl (cl2 w2))" ..
        show thesis by (rule released [OF e, of "[PoolRes p, RedisRes r]"]) (simp_all add: l cl cl2)
      next
        case True
        then obtain v where conf: "Config_validate (provideServiceConfig cfg) = None"
          and v: "provideValidator (lib_authority_ok d) (lib_validator d) = Inr v" by blast
        from provideSSOClient_log [OF assms, of "lib_AuthClient d" "provideSSOClientOptions cfg" w2] obtain sc w3
          where sc: "provideSSOClient (lib_rt d) (lib_grpc d) (lib_AuthClient d) (provideSSOClientOptions cfg) w2 =
            Some (sc, w3)" and
          sc_cases: "(\<exists>e hs. sc = Inl e \<and> lg w3 = lg w2 @ map Opened hs @ map Closed (rev hs) \<and> length hs \<le> 1) \<or>
            (\<exists>c cl3. sc = Inr (c, cl3) \<and> lg w3 = lg w2 @ [Opened (ConnRes (cl_conn c))] \<and>
              (\<forall>v. lg (cl3 v) = lg v @ [Closed (ConnRes (cl_conn c))]) \<and>
              Options_Validate (provideSSOClientOptions cfg) = None)" by blast
        note run = defs provideRedis_def Service_New_def pg p rd r conf v sc
        from sc_cases show thesis
        proof (elim disjE exE conjE)
          fix e hs assume e: "sc = Inl e" and l3: "lg w3 = lg w2 @ map Opened hs @ map Closed (rev hs)"
            and hs: "length hs \<le> 1"
          have "InitializeRouter d cfg w = Some (Inl e, cl (cl2 w3))" by (simp add: run e)
          then show thesis
            by (rule released [where hs = "[PoolRes p, RedisRes r] @ hs"]) (use hs in \<open>simp_all add: l l3 cl cl2\<close>)
        next
          fix c cl3 assume c: "sc = Inr (c, cl3)" and l3: "lg w3 = lg w2 @ [Opened (ConnRes (cl_conn c))]"
            and cl3: "\<forall>v. lg (cl3 v) = lg v @ [Closed (ConnRes (cl_conn c))]"
            and opts: "Options_Validate (provideSSOClientOptions cfg) = None"
          show thesis
          proof (cases "provideAuthVerifier cfg")
            case (Inl e)
            have "InitializeRouter d cfg w = Some (Inl e, cl (cl2 (cl3 w3)))" by (simp add: run c Inl)
            then show thesis
              by (rule released [where hs = "[PoolRes p, RedisRes r, ConnRes (cl_conn c)]"])
                (simp_all add: l l3 cl cl2 cl3)
          next
            case (Inr vf)
            have acc: "accepted_config cfg"
              using conf opts Inr
              by (auto simp: accepted_config_def Config_validate_def provideServiceConfig_def Options_Validate_def
                  provideSSOClientOptions_def Let_def provideAuthVerifier_def NewVerifier_def split: if_splits)
            have "\<exists>h. InitializeRouter d cfg w = Some (Inr (h, \<lambda>w. cl (cl2 (cl3 w))), w3)"
              by (simp add: run c Inr)
            then obtain h where "InitializeRouter d cfg w = Some (Inr (h, \<lambda>w. cl (cl2 (cl3 w))), w3)" ..
            then show thesis
              by (rule ready [OF _ acc]) (simp_all add: l l3 cl cl2 cl3)
          qed
        qed
      qed
    qed
  qed
qed

text \<open>The two injectors are the same up to what they make of the handler.\<close>

definition serve_with :: "AppConfig \<Rightarrow> 'h \<Rightarrow> 'h App" where
  "serve_with cfg h = App_New (provideLogger cfg) (NewServer cfg h)"

lemma InitializeApp_eq:
  "InitializeApp d cfg w =
     map_option (\<lambda>(res, w'). (map_sum id (\<lambda>(h, cl). (serve_with cfg h, cl)) res, w')) (InitializeRouter d cfg w)"
  unfolding InitializeApp_def InitializeRouter_def Let_def
  by (simp add: serve_with_def split: prod.split sum.split option.split)

lemma initialized_config:
  assumes "resource_log (lib_rt d) (lib_grpc d) changes (lib_pgx d) (lib_redis d) lg"
    and "InitializeApp d cfg w = Some (Inr (app, cleanup), w')"
  shows "accepted_config cfg"
proof (cases rule: InitializeRouter_log [OF assms(1), where cfg = cfg and w = w, case_names released redis ready])
  case (ready h cl w' p r c)
  show ?thesis by fact
qed (use assms(2) in \<open>auto simp: InitializeApp_eq\<close>)

end
