(* ===== verification/Bootstrap_Properties.thy ===== *)
theory Bootstrap_Properties
  imports Bootstrap
begin

text \<open>
  An executable set of libraries for the injectors, on the servers of theory \<open>Backend\<close>, with a
  record of what is opened and closed, and the properties of the start-up.
\<close>

section \<open>Executable libraries\<close>

text \<open>
  The world: the servers, the states the sso connection goes through, and the record of openings
  and closings. The connection has timed out when its last state is reached.
\<close>

record boot =
  bt_be :: backend
  bt_states :: "conn_state list"
  bt_log :: "(nat, nat, nat) resource event list"

definition boot_io :: "(backend, 'a) io \<Rightarrow> (boot, 'a) io" where
  "boot_io f s = (case f (bt_be s) of (x, w) \<Rightarrow> (x, s\<lparr>bt_be := w\<rparr>))"

definition record_event :: "(nat, nat, nat) resource event \<Rightarrow> boot \<Rightarrow> boot" where
  "record_event ev s = s\<lparr>bt_log := bt_log s @ [ev]\<rparr>"

definition boot_rt :: "boot runtime" where
  "boot_rt =
     \<lparr>time_Now = boot_io (time_Now be_runtime),
      ctx_Err = (\<lambda>x s. if length (bt_states s) \<le> 1 then (Some (Sentinel ContextDeadlineExceeded), s)
                       else boot_io (ctx_Err be_runtime x) s)\<rparr>"

definition boot_pgx :: "(boot, nat) pgx_lib" where
  "boot_pgx =
     \<lparr>pgxpool_ParseConfig = (\<lambda>dsn s. (if dsn = [] then Inl (Dynamic ''invalid dsn'')
        else Inr \<lparr>pc_ConnConfig = dsn, pc_MaxConns = 4, pc_MinConns = 0, pc_MaxConnLifetime = Hour,
                  pc_MaxConnIdleTime = Hour, pc_HealthCheckPeriod = Minute\<rparr>, s)),
      pgxpool_NewWithConfig = (\<lambda>x pc s. (Inr 0, record_event (Opened (PoolRes 0)) s)),
      pgxpool_New = (\<lambda>x dsn s. (Inr 0, record_event (Opened (PoolRes 0)) s)),
      pgxpool_ops = (\<lambda>p. \<lparr>pool_Exec = (\<lambda>x q as. boot_io (be_Exec x q as)),
                          pool_QueryRow = (\<lambda>x q as. boot_io (be_QueryRow x q as)),
                          pool_Ping = (\<lambda>x. boot_io (be_ping x))\<rparr>),
      pgxpool_Close = (\<lambda>p. record_event (Closed (PoolRes p)))\<rparr>"

definition boot_redis :: "(boot, nat) redis_lib" where
  "boot_redis =
     \<lparr>redis_NewClient = (\<lambda>opt s. (0, record_event (Opened (RedisRes 0)) s)),
      redis_ops = (\<lambda>rdb. \<lparr>rdb_Get = (\<lambda>x k. boot_io (be_rget x k)),
                          rdb_Set = (\<lambda>x k v ttl. boot_io (be_rset x k v ttl)),
                          rdb_Del = (\<lambda>x k. boot_io (be_rdel x k)),
                          rdb_Ping = (\<lambda>x. boot_io (be_ping x))\<rparr>),
      redis_Close = (\<lambda>rdb s. (None, record_event (Closed (RedisRes rdb)) s))\<rparr>"

definition boot_grpc :: "(boot, nat) grpc_lib" where
  "boot_grpc =
     \<lparr>grpc_NewClient = (\<lambda>a cr ka s. (Inr 0, record_event (Opened (ConnRes 0)) s)),
      conn_Connect = (\<lambda>c s. s),
      conn_GetState = (\<lambda>c s. (case bt_states s of st # _ \<Rightarrow> st | [] \<Rightarrow> Shutdown, s)),
      conn_WaitForStateChange = (\<lambda>x c st s.
         if length (bt_states s) \<le> 1 then (False, s) else (True, s\<lparr>bt_states := tl (bt_states s)\<rparr>)),
      conn_Close = (\<lambda>c s. (None, record_event (Closed (ConnRes c)) s))\<rparr>"

definition boot_libs :: "(boot, nat, nat, nat, string \<rightharpoonup> (string \<Rightarrow> bool)) libs" where
  "boot_libs =
     \<lparr>lib_rt = boot_rt, lib_pgx = boot_pgx, lib_redis = boot_redis, lib_grpc = boot_grpc,
      lib_AuthClient = offline_api, lib_group_Do = (\<lambda>k f. f),
      lib_rand = (\<lambda>n s. on_world (boot_io (\<lambda>w. ((take n (be_entropy w),
          if be_entropy w = [] then Some (Sentinel IoEOF) else None),
          w\<lparr>be_entropy := drop n (be_entropy w)\<rparr>))) s),
      lib_validator = engine, lib_authority_ok = (\<lambda>_. True), lib_ParseAddress_ok = (\<lambda>_. True),
      lib_DecodeSave = dec_words, lib_DecodeRegister = dec_register, lib_DecodeLogin = dec_login,
      lib_DecodeRefresh = dec_refresh, lib_foreign = (\<lambda>_. []), lib_jwt_Parse = mini_Parse,
      lib_oob = (\<lambda>_. 0), lib_float64 = fl64, lib_RequestID = ref_RequestID, lib_Recoverer = ref_Recoverer,
      lib_emit = (\<lambda>lg lv msg ats n s. s)\<rparr>"

lemma boot_simps [simp]:
  "lib_rt boot_libs = boot_rt" "lib_pgx boot_libs = boot_pgx" "lib_redis boot_libs = boot_redis"
  "lib_grpc boot_libs = boot_grpc" "lib_AuthClient boot_libs = offline_api"
  "lib_authority_ok boot_libs = (\<lambda>_. True)" "lib_validator boot_libs = engine"
  "bt_log (record_event ev s) = bt_log s @ [ev]" "bt_states (record_event ev s) = bt_states s"
  "bt_be (record_event ev s) = bt_be s"
  by (simp_all add: boot_libs_def record_event_def)

lemma boot_io_log: "boot_io f s = (x, s') \<Longrightarrow> bt_log s' = bt_log s \<and> bt_states s' = bt_states s"
  by (auto simp: boot_io_def split: prod.splits)

lemmas boot_lib_defs = boot_rt_def boot_pgx_def boot_redis_def boot_grpc_def

interpretation boot: resource_log boot_rt boot_grpc "\<lambda>t c s. length (bt_states s)" boot_pgx boot_redis bt_log
  by unfold_locales (auto simp: boot_lib_defs dest: boot_io_log split: if_splits)

text \<open>A configuration that starts, and a world where the connection becomes ready.\<close>

definition demo_cfg :: AppConfig where
  "demo_cfg =
     \<lparr>cfg_Env = ''local'', cfg_DatabaseURL = ''postgres://db'', cfg_RedisAddr = ''redis:6379'',
      cfg_ServerConfig = \<lparr>hs_Address = ''localhost:8080'', hs_Timeout = 4 * Second, hs_IdleTimeout = Minute\<rparr>,
      cfg_AliasLength = 6, cfg_MaxRetries = 5, cfg_TTL = Hour, cfg_RunMigrations = False,
      cfg_SSO = \<lparr>sso_Addr = ''sso:44044'', sso_ApplicationID = 7, sso_AppSecret = ''s3cret'', sso_DialTimeout = 0\<rparr>\<rparr>"

definition boot_start :: "(nat \<times> fault) list \<Rightarrow> boot" where
  "boot_start sched =
     \<lparr>bt_be = empty_backend\<lparr>be_schedule := sched\<rparr>, bt_states = [Idle, Connecting, Ready, Idle], bt_log = []\<rparr>"

lemmas boot_eval =
  InitializeApp_eq InitializeRouter_def InitPostgres_def InitRedis_def provideRedis_def provideSSOClient_def
  Client_New_def Options_Validate_def provideSSOClientOptions_def waitUntilReady.simps provideAuthVerifier_def
  NewVerifier_def provideValidator_def engine_New Service_New_def Config_validate_def provideServiceConfig_def
  boot_lib_defs boot_io_def be_ping_def next_event_def be_runtime_def boot_start_def demo_cfg_def empty_backend_def
  provideDatabaseURL_def record_event_def Client_Close_def Let_def

lemma boot_up:
  "\<exists>app cl s. InitializeApp boot_libs demo_cfg (boot_start []) = Some (Inr (app, cl), s) \<and> bt_be s = empty_backend"
  by (simp add: boot_eval)

lemma boot_no_secret:
  "\<exists>e s. InitializeApp boot_libs (demo_cfg\<lparr>cfg_SSO := (cfg_SSO demo_cfg)\<lparr>sso_AppSecret := []\<rparr>\<rparr>) (boot_start []) =
     Some (Inl e, s) \<and> bt_log s =
       [Opened (PoolRes 0), Opened (RedisRes 0), Opened (ConnRes 0),
        Closed (ConnRes 0), Closed (RedisRes 0), Closed (PoolRes 0)]"
  by (simp add: boot_eval)

section \<open>Pings and loggers\<close>

text \<open>
  The two constructors treat a failed ping differently: a failing \<open>InitPostgres\<close> has closed
  the pool it opened, a failing \<open>InitRedis\<close> has opened a client and closed nothing.
\<close>

lemma failed_pings:
  assumes "resource_log rt grpc changes pgx rds lg"
  shows "(InitPostgres rt pgx dsn w = (Inl e, w') \<longrightarrow>
            lg w' = lg w \<or> (\<exists>p. lg w' = lg w @ [Opened (PoolRes p), Closed (PoolRes p)])) \<and>
         (InitRedis rt rds addr w = (Inl e, w') \<longrightarrow> (\<exists>r. lg w' = lg w @ [Opened (RedisRes r)]))"
proof (intro conjI impI)
  assume "InitPostgres rt pgx dsn w = (Inl e, w')"
  from resource_log.InitPostgres_log [OF assms this] obtain hs
    where hs: "lg w' = lg w @ map Opened hs @ map Closed (rev hs)" "length hs \<le> 1" "set hs \<subseteq> range PoolRes"
    by auto
  then show "lg w' = lg w \<or> (\<exists>p. lg w' = lg w @ [Opened (PoolRes p), Closed (PoolRes p)])"
    by (cases hs) auto
next
  assume "InitRedis rt rds addr w = (Inl e, w')"
  from resource_log.InitRedis_log [OF assms this] show "\<exists>r. lg w' = lg w @ [Opened (RedisRes r)]" by blast
qed

text \<open>
  The environment decides the logger: text output for \<open>local\<close> only, debug entries for
  \<open>local\<close> and \<open>dev\<close> only, and every other name, \<open>development\<close> and \<open>production\<close> included,
  gets json output from info on.
\<close>

lemma logger_by_environment:
  "provideLogger cfg =
     \<lparr>lg_handler = (if cfg_Env cfg = ''local'' then TextHandler else JSONHandler),
      lg_level = (if cfg_Env cfg \<in> {''local'', ''dev''} then LDebug else LInfo),
      lg_attrs = [(''service'', ''url-shortener'')]\<rparr>"
  by (simp add: provideLogger_def logger_With_def envLocal_def envDev_def envProd_def Let_def)

text \<open>No environment drops the entry of an answer.\<close>

lemma answers_enabled: "slog_Enabled (provideLogger cfg) (fst (log_choice status))"
  by (simp add: slog_Enabled_def logger_by_environment log_choice_def)

text \<open>
  The alias length is not validated: the service starts with a negative one, and then every save
  without a chosen alias panics.
\<close>

lemma negative_length_starts:
  "\<exists>app cl s. InitializeApp boot_libs (demo_cfg\<lparr>cfg_AliasLength := - 1\<rparr>) (boot_start []) = Some (Inr (app, cl), s)"
  by (simp add: boot_eval)

lemma negative_length_panics:
  assumes "cfg_AliasLength cfg < 0" and "0 < MaxRetries (srv_cfg s)"
    and "srv_generator s = Generate (provideAliasGenerator rand cfg)" and "ctx_Err rt x w = (None, w1)"
  shows "saveGeneratedAlias rt s x url w = (Panic ''makeslice: len out of range'', w1)"
proof -
  from assms(2) obtain n where "nat (MaxRetries (srv_cfg s)) = Suc n" by (cases "nat (MaxRetries (srv_cfg s))") auto
  with assms(1,3,4) show ?thesis
    by (simp add: saveGeneratedAlias_def Generate_def provideAliasGenerator_def random_New_def)
qed

section \<open>Properties\<close>

text \<open>
  C28. The start-up returns whatever the servers do, and what it opens is accounted for. When it
  succeeds, the database pool, the Redis client and the sso connection are open, in that order,
  and the cleanup it returns closes each of them once, in the reverse order. When it fails,
  everything it had opened has been closed again, each once and in reverse order, with one
  exception: if Redis does not answer the ping, its client stays open.
\<close>

theorem InitializeApp_resources:
  assumes "resource_log (lib_rt d) (lib_grpc d) changes (lib_pgx d) (lib_redis d) lg"
  shows "\<exists>res w'. InitializeApp d cfg w = Some (res, w') \<and>
    (case res of
       Inr (app, cleanup) \<Rightarrow>
         \<exists>p r c. lg w' = lg w @ map Opened [PoolRes p, RedisRes r, ConnRes c] \<and>
           (\<forall>v. lg (cleanup v) = lg v @ map Closed [ConnRes c, RedisRes r, PoolRes p])
     | Inl e \<Rightarrow>
         (\<exists>hs. length hs \<le> 3 \<and> lg w' = lg w @ map Opened hs @ map Closed (rev hs)) \<or>
         (\<exists>e' p r. e = op_wrap ''redis.InitRedis'' e' \<and>
            lg w' = lg w @ [Opened (PoolRes p), Opened (RedisRes r), Closed (PoolRes p)]))"
proof (cases rule: InitializeRouter_log [OF assms, where cfg = cfg and w = w, case_names released redis ready])
  case (released e w' hs)
  then show ?thesis by (auto simp: InitializeApp_eq)
next
  case (redis e w' p r)
  then show ?thesis by (simp add: InitializeApp_eq) blast
next
  case (ready h cl w' p r c)
  then show ?thesis by (simp add: InitializeApp_eq)
qed

theorem InitializeApp_resources_witness:
  "\<exists>app cleanup s p r c. InitializeApp boot_libs demo_cfg (boot_start []) = Some (Inr (app, cleanup), s) \<and>
     bt_log s = map Opened [PoolRes p, RedisRes r, ConnRes c] \<and>
     bt_log (cleanup s) = bt_log s @ map Closed [ConnRes c, RedisRes r, PoolRes p]"
proof -
  have lg: "resource_log (lib_rt boot_libs) (lib_grpc boot_libs) (\<lambda>t c s. length (bt_states s))
      (lib_pgx boot_libs) (lib_redis boot_libs) bt_log"
    by (simp add: boot.resource_log_axioms)
  from boot_up obtain app cl s where run: "InitializeApp boot_libs demo_cfg (boot_start []) = Some (Inr (app, cl), s)"
    by blast
  have "bt_log (boot_start []) = []" by (simp add: boot_start_def)
  with InitializeApp_resources [OF lg, of demo_cfg "boot_start []"] show ?thesis
    unfolding run by auto
qed

text \<open>
  C38. No part of the service starts without the sso configuration: if the sso address, the
  application id or the secret is unset, or the number of retries is not positive, start-up fails
  with an error, whatever the servers do, and no handler exists, not even for redirects and the
  probe.
\<close>

theorem InitializeApp_needs_config:
  assumes "resource_log (lib_rt d) (lib_grpc d) changes (lib_pgx d) (lib_redis d) lg"
    and "cfg_MaxRetries cfg \<le> 0 \<or> sso_Addr (cfg_SSO cfg) = [] \<or> sso_ApplicationID (cfg_SSO cfg) = 0 \<or>
         sso_AppSecret (cfg_SSO cfg) = []"
  shows "\<exists>e w'. InitializeApp d cfg w = Some (Inl e, w')"
proof (cases rule: InitializeRouter_log [OF assms(1), where cfg = cfg and w = w, case_names released redis ready])
  case (ready h cl w' p r c)
  with assms(2) show ?thesis by (auto simp: accepted_config_def)
qed (auto simp: InitializeApp_eq)

theorem InitializeApp_needs_config_witness:
  "\<exists>e s. InitializeApp boot_libs (demo_cfg\<lparr>cfg_SSO := (cfg_SSO demo_cfg)\<lparr>sso_Addr := []\<rparr>\<rparr>) (boot_start []) =
     Some (Inl e, s)"
  by (rule InitializeApp_needs_config
      [where lg = bt_log and changes = "\<lambda>t c s. length (bt_states s)"]) (simp_all add: boot.resource_log_axioms)

text \<open>
  The two injectors agree: \<open>InitializeApp\<close> opens, fails and cleans up exactly as
  \<open>InitializeRouter\<close> does, and the application it returns serves the handler that
  \<open>InitializeRouter\<close> returns, at the configured address and with the configured timeouts.
\<close>

lemma injectors_agree:
  "InitializeApp d cfg w =
     (case InitializeRouter d cfg w of
        None \<Rightarrow> None
      | Some (Inl e, w') \<Rightarrow> Some (Inl e, w')
      | Some (Inr (h, cleanup), w') \<Rightarrow>
          Some (Inr (\<lparr>app_log = provideLogger cfg,
                      app_server = \<lparr>server_Addr = hs_Address (cfg_ServerConfig cfg), server_Handler = h,
                        server_ReadTimeout = hs_Timeout (cfg_ServerConfig cfg),
                        server_WriteTimeout = hs_Timeout (cfg_ServerConfig cfg),
                        server_IdleTimeout = hs_IdleTimeout (cfg_ServerConfig cfg)\<rparr>\<rparr>, cleanup), w'))"
  by (simp add: InitializeApp_eq serve_with_def App_New_def NewServer_def split: option.split prod.split sum.split)

end
