(* ===== verification/App_Main.thy ===== *)
theory App_Main
  imports Bootstrap_Properties
begin

text \<open>
  \<open>internal/app/app.go\<close>, \<open>App.Run\<close>, as a step relation of its two goroutines, and \<open>main\<close> of
  \<open>cmd/url-shortener/main.go\<close>. The theorems give what \<open>Run\<close> does on every path and show that it
  cannot get stuck once there is something to react to.
\<close>

section \<open>\<open>App.Run\<close>\<close>

text \<open>What \<open>Run\<close> has deferred, and where its two goroutines are.\<close>

datatype deferred = CleanUp | StopNotify | CancelShutdown

datatype main_pc = Selecting | ShuttingDown | Returning "go_error option" | Returned "go_error option"

record 'w run_state =
  rs_main :: main_pc
  rs_listening :: bool
  rs_signals :: "string option"
  rs_serverErr :: "go_error option"
  rs_notify :: bool
  rs_deferred :: "deferred list"
  rs_world :: 'w

datatype run_label =
    Serves | Listen_returns "go_error option" | Signal_arrives string
  | Recv_signal string | Recv_error go_error | Shutdown_call "go_error option" | Runs_deferred deferred | Returns

definition shutdownTimeout :: duration where
  "shutdownTimeout = 10 * Second"

text \<open>The names of the signals it asks for: \<open>os.Interrupt\<close> and \<open>SIGINT\<close> are the same one.\<close>

definition notified_signals :: "string list" where
  "notified_signals = [''interrupt'', ''interrupt'', ''terminated'']"

text \<open>
  The calls of \<open>Run\<close>: what the server does to the world while it serves, \<open>Shutdown\<close> under a
  context, the clock.
\<close>

record 'w run_lib =
  rl_serves :: "'w \<Rightarrow> 'w \<Rightarrow> bool"
  rl_Shutdown :: "ctx \<Rightarrow> ('w, go_error option) io"
  rl_Now :: "('w, time) io"

definition Run_start :: "('w \<Rightarrow> 'w) option \<Rightarrow> 'w \<Rightarrow> 'w run_state" where
  "Run_start cleanup w =
     \<lparr>rs_main = Selecting, rs_listening = True, rs_signals = None, rs_serverErr = None, rs_notify = True,
      rs_deferred = StopNotify # (if cleanup \<noteq> None then [CleanUp] else []), rs_world = w\<rparr>"

definition run_deferred :: "('w \<Rightarrow> 'w) option \<Rightarrow> deferred \<Rightarrow> 'w run_state \<Rightarrow> 'w run_state" where
  "run_deferred cleanup df s =
     (case df of
        CleanUp \<Rightarrow> (case cleanup of None \<Rightarrow> s | Some f \<Rightarrow> s\<lparr>rs_world := f (rs_world s)\<rparr>)
      | StopNotify \<Rightarrow> s\<lparr>rs_notify := False\<rparr>
      | CancelShutdown \<Rightarrow> s)"

text \<open>
  Both channels hold one value: a signal that finds its channel full is dropped, and the one
  error the server goroutine sends always fits. \<open>select\<close> takes either value if both are there.
\<close>

inductive run_step ::
  "'w run_lib \<Rightarrow> ('w \<Rightarrow> 'w) option \<Rightarrow> 'w run_state \<Rightarrow> run_label \<Rightarrow> 'w run_state \<Rightarrow> bool"
  for lib :: "'w run_lib" and cleanup :: "('w \<Rightarrow> 'w) option" where
  serve: "rs_listening s \<Longrightarrow> rl_serves lib (rs_world s) w' \<Longrightarrow>
    run_step lib cleanup s Serves (s\<lparr>rs_world := w'\<rparr>)"
| listen_failed: "rs_listening s \<Longrightarrow> \<not> errors_Is e HttpErrServerClosed \<Longrightarrow>
    run_step lib cleanup s (Listen_returns (Some e)) (s\<lparr>rs_listening := False, rs_serverErr := Some e\<rparr>)"
| listen_closed: "rs_listening s \<Longrightarrow> err = None \<or> (\<exists>e. err = Some e \<and> errors_Is e HttpErrServerClosed) \<Longrightarrow>
    run_step lib cleanup s (Listen_returns err) (s\<lparr>rs_listening := False\<rparr>)"
| signal: "rs_notify s \<Longrightarrow> sig \<in> set notified_signals \<Longrightarrow> run_step lib cleanup s (Signal_arrives sig)
      (if rs_signals s = None then s\<lparr>rs_signals := Some sig\<rparr> else s)"
| recv_signal: "rs_main s = Selecting \<Longrightarrow> rs_signals s = Some sig \<Longrightarrow>
    run_step lib cleanup s (Recv_signal sig) (s\<lparr>rs_main := ShuttingDown, rs_signals := None\<rparr>)"
| recv_error: "rs_main s = Selecting \<Longrightarrow> rs_serverErr s = Some e \<Longrightarrow>
    run_step lib cleanup s (Recv_error e)
      (s\<lparr>rs_main := Returning (Some (Wrap ''http server: '' e [])), rs_serverErr := None\<rparr>)"
| shutdown: "rs_main s = ShuttingDown \<Longrightarrow> rl_Now lib (rs_world s) = (now, w1) \<Longrightarrow>
    rl_Shutdown lib (WithTimeout now Background shutdownTimeout) w1 = (e, w2) \<Longrightarrow>
    run_step lib cleanup s (Shutdown_call e)
      (s\<lparr>rs_main := Returning None, rs_deferred := CancelShutdown # rs_deferred s, rs_world := w2\<rparr>)"
| defers: "rs_main s = Returning r \<Longrightarrow> rs_deferred s = df # ds \<Longrightarrow>
    run_step lib cleanup s (Runs_deferred df) (run_deferred cleanup df (s\<lparr>rs_deferred := ds\<rparr>))"
| returns: "rs_main s = Returning r \<Longrightarrow> rs_deferred s = [] \<Longrightarrow>
    run_step lib cleanup s Returns (s\<lparr>rs_main := Returned r\<rparr>)"

inductive_cases run_stepE: "run_step lib cleanup s l s'"

inductive run_trace ::
  "'w run_lib \<Rightarrow> ('w \<Rightarrow> 'w) option \<Rightarrow> 'w run_state \<Rightarrow> run_label list \<Rightarrow> 'w run_state \<Rightarrow> bool"
  for lib :: "'w run_lib" and cleanup :: "('w \<Rightarrow> 'w) option" and s :: "'w run_state" where
  start: "run_trace lib cleanup s [] s"
| step: "run_trace lib cleanup s ls s1 \<Longrightarrow> run_step lib cleanup s1 l s2 \<Longrightarrow> run_trace lib cleanup s (ls @ [l]) s2"

section \<open>What the main goroutine has done\<close>

fun main_label :: "run_label \<Rightarrow> bool" where
  "main_label Serves = False"
| "main_label (Listen_returns _) = False"
| "main_label (Signal_arrives _) = False"
| "main_label _ = True"

definition base_defers :: "('w \<Rightarrow> 'w) option \<Rightarrow> deferred list" where
  "base_defers cleanup = StopNotify # (if cleanup \<noteq> None then [CleanUp] else [])"

text \<open>The path of the main goroutine up to its return, and what it returns.\<close>

inductive main_path :: "('w \<Rightarrow> 'w) option \<Rightarrow> run_label list \<Rightarrow> deferred list \<Rightarrow> go_error option \<Rightarrow> bool"
  for cleanup :: "('w \<Rightarrow> 'w) option" where
  on_error: "main_path cleanup [Recv_error e] (base_defers cleanup) (Some (Wrap ''http server: '' e []))"
| on_signal: "main_path cleanup [Recv_signal sig, Shutdown_call e] (CancelShutdown # base_defers cleanup) None"

definition main_progress :: "('w \<Rightarrow> 'w) option \<Rightarrow> run_label list \<Rightarrow> 'w run_state \<Rightarrow> bool" where
  "main_progress cleanup ls s \<longleftrightarrow>
     (case rs_main s of
        Selecting \<Rightarrow> filter main_label ls = [] \<and> rs_deferred s = base_defers cleanup
      | ShuttingDown \<Rightarrow> (\<exists>sig. filter main_label ls = [Recv_signal sig]) \<and> rs_deferred s = base_defers cleanup
      | Returning r \<Rightarrow>
          (\<exists>ls0 dfs n. main_path cleanup ls0 dfs r \<and> filter main_label ls = ls0 @ map Runs_deferred (take n dfs) \<and>
             rs_deferred s = drop n dfs)
      | Returned r \<Rightarrow>
          (\<exists>ls0 dfs. main_path cleanup ls0 dfs r \<and>
             filter main_label ls = ls0 @ map Runs_deferred dfs @ [Returns]))"

lemma run_deferred_main [simp]:
  "rs_main (run_deferred cl df s) = rs_main s" "rs_deferred (run_deferred cl df s) = rs_deferred s"
  "rs_signals (run_deferred cl df s) = rs_signals s" "rs_serverErr (run_deferred cl df s) = rs_serverErr s"
  "rs_listening (run_deferred cl df s) = rs_listening s"
  by (auto simp: run_deferred_def split: deferred.splits option.splits)

lemma take_drop_step: "drop n xs = y # ys \<Longrightarrow> take (Suc n) xs = take n xs @ [y] \<and> drop (Suc n) xs = ys"
proof (induction n arbitrary: xs)
  case 0
  then show ?case by simp
next
  case (Suc n)
  then show ?case by (cases xs) auto
qed

lemma main_progress_step:
  assumes "main_progress cl ls s" and "run_step lib cl s l s'"
  shows "main_progress cl (ls @ [l]) s'"
  using assms(2)
proof cases
  case (recv_error e)
  have "main_path cl [Recv_error e] (base_defers cl) (Some (Wrap ''http server: '' e []))" by (rule on_error)
  with recv_error assms(1) show ?thesis
    by (auto simp: main_progress_def intro!: exI [of _ "[Recv_error e]"] exI [of _ "base_defers cl"] exI [of _ 0])
next
  case (shutdown now w1 e w2)
  with assms(1) obtain sig where sig: "filter main_label ls = [Recv_signal sig]" "rs_deferred s = base_defers cl"
    by (auto simp: main_progress_def)
  have "main_path cl [Recv_signal sig, Shutdown_call e] (CancelShutdown # base_defers cl) None" by (rule on_signal)
  with shutdown sig show ?thesis
    by (auto simp: main_progress_def intro!: exI [of _ "[Recv_signal sig, Shutdown_call e]"]
        exI [of _ "CancelShutdown # base_defers cl"] exI [of _ 0])
next
  case (defers r df ds)
  with assms(1) obtain ls0 dfs n where p: "main_path cl ls0 dfs r"
    "filter main_label ls = ls0 @ map Runs_deferred (take n dfs)" "drop n dfs = df # ds"
    by (auto simp: main_progress_def)
  from take_drop_step [OF p(3)] p(1,2) defers show ?thesis
    by (auto simp: main_progress_def intro!: exI [of _ ls0] exI [of _ dfs] exI [of _ "Suc n"])
next
  case (returns r)
  with assms(1) obtain ls0 dfs n where p: "main_path cl ls0 dfs r"
    "filter main_label ls = ls0 @ map Runs_deferred (take n dfs)" "drop n dfs = []"
    by (auto simp: main_progress_def)
  then have "take n dfs = dfs" by simp
  with p returns show ?thesis by (auto simp: main_progress_def intro!: exI [of _ ls0] exI [of _ dfs])
qed (use assms(1) in \<open>auto simp: main_progress_def split: main_pc.splits\<close>)

lemma run_trace_progress: "run_trace lib cl (Run_start cl w) ls s \<Longrightarrow> main_progress cl ls s"
proof (induction rule: run_trace.induct)
  case start
  show ?case by (simp add: main_progress_def Run_start_def base_defers_def)
next
  case (step ls s1 l s2)
  then show ?case by (blast intro: main_progress_step)
qed

text \<open>A return is final: only the server and the signals can still take steps.\<close>

lemma returned_is_final:
  "run_step lib cl s l s' \<Longrightarrow> rs_main s = Returned r \<Longrightarrow> \<not> main_label l \<and> rs_main s' = Returned r"
  by (auto elim!: run_stepE)

text \<open>Where the values on the channels come from, and that they wait there.\<close>

definition channels_ok :: "run_label list \<Rightarrow> 'w run_state \<Rightarrow> bool" where
  "channels_ok ls s \<longleftrightarrow>
     (\<forall>sig. rs_signals s = Some sig \<or> Recv_signal sig \<in> set ls \<longrightarrow> Signal_arrives sig \<in> set ls) \<and>
     (\<forall>e. rs_serverErr s = Some e \<or> Recv_error e \<in> set ls \<longrightarrow>
        Listen_returns (Some e) \<in> set ls \<and> \<not> errors_Is e HttpErrServerClosed) \<and>
     (rs_main s = Selecting \<longrightarrow>
        (\<forall>sig. Signal_arrives sig \<in> set ls \<longrightarrow> rs_signals s \<noteq> None) \<and>
        (\<forall>e. Listen_returns (Some e) \<in> set ls \<longrightarrow> \<not> errors_Is e HttpErrServerClosed \<longrightarrow> rs_serverErr s \<noteq> None))"

lemma channels_ok_step:
  assumes "channels_ok ls s" and "run_step lib cl s l s'"
  shows "channels_ok (ls @ [l]) s'"
  using assms(2)
proof cases
  case (signal sig)
  with assms(1) show ?thesis by (cases "rs_signals s") (auto simp: channels_ok_def)
qed (use assms(1) in \<open>auto simp: channels_ok_def\<close>)

lemma run_trace_channels: "run_trace lib cl (Run_start cl w) ls s \<Longrightarrow> channels_ok ls s"
proof (induction rule: run_trace.induct)
  case start
  show ?case by (simp add: channels_ok_def Run_start_def)
next
  case (step ls s1 l s2)
  then show ?case by (blast intro: channels_ok_step)
qed

lemma run_trace_received:
  assumes "run_trace lib cl (Run_start cl w) ls s"
  shows "Recv_error e \<in> set ls \<Longrightarrow> Listen_returns (Some e) \<in> set ls \<and> \<not> errors_Is e HttpErrServerClosed"
    and "Recv_signal sig \<in> set ls \<Longrightarrow> Signal_arrives sig \<in> set ls"
  using run_trace_channels [OF assms] by (simp_all add: channels_ok_def)

lemma main_path_length:
  assumes "main_path cl ls dfs r" shows "length ls + length dfs \<le> 5"
  using assms by cases (auto simp: base_defers_def)

lemma main_progress_length:
  assumes "main_progress cl ls s" shows "length (filter main_label ls) \<le> 6"
proof (cases "rs_main s")
  case (Returning r)
  with assms obtain ls0 dfs n where p: "main_path cl ls0 dfs r"
    "filter main_label ls = ls0 @ map Runs_deferred (take n dfs)" by (auto simp: main_progress_def)
  from main_path_length [OF p(1)] p(2) show ?thesis by simp
next
  case (Returned r)
  with assms obtain ls0 dfs where p: "main_path cl ls0 dfs r"
    "filter main_label ls = ls0 @ map Runs_deferred dfs @ [Returns]" by (auto simp: main_progress_def)
  from main_path_length [OF p(1)] p(2) show ?thesis by simp
qed (use assms in \<open>auto simp: main_progress_def\<close>)

section \<open>\<open>main\<close>\<close>

datatype ('h, 'w) main_outcome = MainExits nat string | MainPanics string | MainRuns "'h App" "'w \<Rightarrow> 'w"

record ('w, 'm) main_lib =
  ml_config :: "'w config_lib"
  ml_migrate :: "('w, 'm) migrate_lib"
  ml_Parsed :: bool
  ml_config_flag :: "string option"
  ml_Getenv :: "string \<Rightarrow> string"

text \<open>
  \<open>main\<close> up to \<open>application.Run\<close>, and what it does with the result of \<open>Run\<close>. \<open>log.Fatal\<close>
  prints and exits with status 1, a rejected command line exits with status 2; \<open>None\<close> is that
  it does not get there.
\<close>

definition main_start ::
  "('w, 'm) main_lib \<Rightarrow> ('w, 'p, 'r, 'c, 'v) libs \<Rightarrow> 'w \<Rightarrow>
   (('w cached web Mux, 'w) main_outcome \<times> 'w) option" where
  "main_start ml d w =
     (case fetchConfigPath (ml_Parsed ml) (ml_config_flag ml) (ml_Getenv ml) of
        None \<Rightarrow> Some (MainExits 2 [], w)
      | Some path \<Rightarrow>
          (case MustLoad (lib_foreign d) (ml_config ml) path w of
             (Ok cfg, w1) \<Rightarrow>
               (case (if cfg_RunMigrations cfg then RunMigrations (ml_migrate ml) ''file://./migrations'' cfg w1
                      else (None, w1)) of
                  (Some err, w2) \<Rightarrow> Some (MainExits 1 (err_Error (lib_foreign d) err), w2)
                | (None, w2) \<Rightarrow>
                    (case InitializeApp d cfg w2 of
                       None \<Rightarrow> None
                     | Some (Inl err, w3) \<Rightarrow>
                         Some (MainExits 1 (''failed to initialize app: '' @ err_Error (lib_foreign d) err), w3)
                     | Some (Inr (application, cleanup), w3) \<Rightarrow> Some (MainRuns application cleanup, w3)))
           | (Panic msg, w1) \<Rightarrow> Some (MainPanics msg, w1)
           | (Err err, w1) \<Rightarrow> Some (MainPanics (err_Error (lib_foreign d) err), w1)
           | (Diverges, w1) \<Rightarrow> None))"

definition main_finish :: "(go_error \<Rightarrow> string) \<Rightarrow> go_error option \<Rightarrow> ('h, 'w) main_outcome" where
  "main_finish foreign err =
     (case err of None \<Rightarrow> MainExits 0 [] | Some e \<Rightarrow> MainExits 1 (err_Error foreign e))"

text \<open>A server that is stopped by a signal; its cleanup empties the world.\<close>

definition idle_lib :: "nat run_lib" where
  "idle_lib = \<lparr>rl_serves = (\<lambda>w w'. w' = Suc w), rl_Shutdown = (\<lambda>x w. (None, w)), rl_Now = (\<lambda>w. (0, w))\<rparr>"

definition stopped_run :: "run_label list" where
  "stopped_run = [Serves, Signal_arrives ''terminated'', Recv_signal ''terminated'', Shutdown_call None,
     Runs_deferred CancelShutdown, Runs_deferred StopNotify, Runs_deferred CleanUp, Returns]"

lemma run_trace_Cons:
  assumes "run_step lib cl s l s1" and "run_trace lib cl s1 ls s2"
  shows "run_trace lib cl s (l # ls) s2"
  using assms(2)
proof (induction rule: run_trace.induct)
  case start
  from run_trace.step [OF run_trace.start assms(1)] show ?case by simp
next
  case (step ls s1 l s2)
  from run_trace.step [OF step.IH step.hyps(2)] show ?case by simp
qed

lemma run_defer_all:
  "\<exists>s'. run_trace lib cl (s\<lparr>rs_main := Returning r, rs_deferred := dfs\<rparr>) (map Runs_deferred dfs @ [Returns]) s' \<and>
     rs_main s' = Returned r"
proof (induction dfs arbitrary: s)
  case Nil
  show ?case
    by (intro exI conjI, simp, rule run_trace_Cons [OF run_step.returns run_trace.start]) simp_all
next
  case (Cons df dfs)
  let ?s = "s\<lparr>rs_main := Returning r, rs_deferred := df # dfs\<rparr>"
  let ?t = "run_deferred cl df (?s\<lparr>rs_deferred := dfs\<rparr>)"
  have t: "?t = ?t\<lparr>rs_main := Returning r, rs_deferred := dfs\<rparr>"
    by (auto simp: run_deferred_def split: deferred.splits option.splits)
  have "run_step lib cl ?s (Runs_deferred df) ?t" by (rule run_step.defers) simp_all
  moreover from Cons [of ?t] obtain s' where
    "run_trace lib cl ?t (map Runs_deferred dfs @ [Returns]) s'" "rs_main s' = Returned r"
    unfolding t [symmetric] by blast
  ultimately show ?case by (auto intro: run_trace_Cons)
qed

lemma stopped_trace:
  "\<exists>s. run_trace idle_lib (Some (\<lambda>_. 0)) (Run_start (Some (\<lambda>_. 0)) 7) stopped_run s \<and> rs_main s = Returned None"
proof -
  let ?C = "Some (\<lambda>_. 0) :: (nat \<Rightarrow> nat) option" and ?s0 = "Run_start (Some (\<lambda>_. 0)) (7 :: nat)"
  let ?s1 = "?s0\<lparr>rs_world := 8\<rparr>"
  let ?s2 = "?s1\<lparr>rs_signals := Some ''terminated''\<rparr>"
  let ?s3 = "?s2\<lparr>rs_main := ShuttingDown, rs_signals := None\<rparr>"
  let ?s4 = "?s3\<lparr>rs_main := Returning None, rs_deferred := CancelShutdown # rs_deferred ?s3, rs_world := 8\<rparr>"
  have s1: "run_step idle_lib ?C ?s0 Serves ?s1"
    by (rule run_step.serve) (simp_all add: Run_start_def idle_lib_def)
  have s2: "run_step idle_lib ?C ?s1 (Signal_arrives ''terminated'') ?s2"
    using run_step.signal [of ?s1 "''terminated''" idle_lib ?C] by (simp add: Run_start_def notified_signals_def)
  have s3: "run_step idle_lib ?C ?s2 (Recv_signal ''terminated'') ?s3"
    by (rule run_step.recv_signal) (simp_all add: Run_start_def)
  have s4: "run_step idle_lib ?C ?s3 (Shutdown_call None) ?s4"
    by (rule run_step.shutdown [of _ _ 0 8]) (simp_all add: Run_start_def idle_lib_def)
  have "?s4 = ?s4\<lparr>rs_main := Returning None, rs_deferred := [CancelShutdown, StopNotify, CleanUp]\<rparr>"
    by (simp add: Run_start_def)
  with run_defer_all [where lib = idle_lib and cl = ?C and s = ?s4 and r = None
      and dfs = "[CancelShutdown, StopNotify, CleanUp]"] obtain s where
    s: "run_trace idle_lib ?C ?s4 (map Runs_deferred [CancelShutdown, StopNotify, CleanUp] @ [Returns]) s"
      "rs_main s = Returned None" by metis
  from run_trace_Cons [OF s1 run_trace_Cons [OF s2 run_trace_Cons [OF s3 run_trace_Cons [OF s4 s(1)]]]] s(2)
  show ?thesis by (auto simp: stopped_run_def)
qed

section \<open>Properties\<close>

text \<open>
  C29. \<open>Run\<close> has exactly two ways to return. Either the listener failed with an error other than
  the regular close, and \<open>Run\<close> returns that error without a shutdown; or one of the signals
  arrived, and it returns no error after exactly one call of \<open>Shutdown\<close>. On both ways the
  deferred calls run once each, in reverse order, and the cleanup is the last of them, so the
  resources are closed after the shutdown and exactly once.
\<close>

theorem Run_paths:
  assumes "run_trace lib cleanup (Run_start cleanup w) ls s" and "rs_main s = Returned r"
  shows "(\<exists>e. r = Some (Wrap ''http server: '' e []) \<and> Listen_returns (Some e) \<in> set ls \<and>
            \<not> errors_Is e HttpErrServerClosed \<and>
            filter main_label ls = [Recv_error e, Runs_deferred StopNotify] @
              (if cleanup = None then [] else [Runs_deferred CleanUp]) @ [Returns]) \<or>
         (\<exists>sig e. r = None \<and> Signal_arrives sig \<in> set ls \<and>
            filter main_label ls =
              [Recv_signal sig, Shutdown_call e, Runs_deferred CancelShutdown, Runs_deferred StopNotify] @
              (if cleanup = None then [] else [Runs_deferred CleanUp]) @ [Returns])"
proof -
  from run_trace_progress [OF assms(1)] assms(2) obtain ls0 dfs where p: "main_path cleanup ls0 dfs r"
    and f: "filter main_label ls = ls0 @ map Runs_deferred dfs @ [Returns]" by (auto simp: main_progress_def)
  from p show ?thesis
  proof cases
    case (on_error e)
    then have "Recv_error e \<in> set (filter main_label ls)" by (simp add: f)
    then have "Recv_error e \<in> set ls" by simp
    with run_trace_received(1) [OF assms(1)] on_error f show ?thesis by (simp add: base_defers_def)
  next
    case (on_signal sig e)
    then have "Recv_signal sig \<in> set (filter main_label ls)" by (simp add: f)
    then have "Recv_signal sig \<in> set ls" by simp
    with run_trace_received(2) [OF assms(1)] on_signal f show ?thesis by (simp add: base_defers_def)
  qed
qed

theorem Run_paths_witness:
  "\<exists>s. run_trace idle_lib (Some (\<lambda>_. 0)) (Run_start (Some (\<lambda>_. 0)) 7) stopped_run s \<and>
     filter main_label stopped_run = [Recv_signal ''terminated'', Shutdown_call None, Runs_deferred CancelShutdown,
       Runs_deferred StopNotify, Runs_deferred CleanUp, Returns] \<and>
     (\<exists>sig. Signal_arrives sig \<in> set stopped_run)"
proof -
  from stopped_trace obtain s where
    s: "run_trace idle_lib (Some (\<lambda>_. 0)) (Run_start (Some (\<lambda>_. 0)) 7) stopped_run s" "rs_main s = Returned None"
    by blast
  from Run_paths [OF s] s(1) show ?thesis by (auto simp: stopped_run_def)
qed

text \<open>
  C30. \<open>Run\<close> does not get stuck: once a signal has arrived or the listener has failed, the main
  goroutine can take a step of its own in every state until it has returned, and it takes at most
  six steps in all, so it returns in every run in which it is scheduled.
\<close>

theorem Run_returns:
  assumes "run_trace lib cleanup (Run_start cleanup w) ls s"
    and "Signal_arrives sig \<in> set ls \<or> Listen_returns (Some e) \<in> set ls \<and> \<not> errors_Is e HttpErrServerClosed"
  shows "length (filter main_label ls) \<le> 6 \<and>
         ((\<exists>r. rs_main s = Returned r) \<or> (\<exists>l s'. main_label l \<and> run_step lib cleanup s l s'))"
proof
  show "length (filter main_label ls) \<le> 6"
    by (rule main_progress_length [OF run_trace_progress [OF assms(1)]])
  show "(\<exists>r. rs_main s = Returned r) \<or> (\<exists>l s'. main_label l \<and> run_step lib cleanup s l s')"
  proof (cases "rs_main s")
    case Selecting
    with run_trace_channels [OF assms(1)] assms(2)
    have "rs_signals s \<noteq> None \<or> rs_serverErr s \<noteq> None" by (auto simp: channels_ok_def)
    with Selecting show ?thesis by (metis main_label.simps(4,5) not_None_eq recv_signal recv_error)
  next
    case ShuttingDown
    obtain now w1 where "rl_Now lib (rs_world s) = (now, w1)" by (metis surj_pair)
    moreover obtain e w2 where "rl_Shutdown lib (WithTimeout now Background shutdownTimeout) w1 = (e, w2)"
      by (metis surj_pair)
    ultimately show ?thesis using shutdown [OF ShuttingDown] by (metis main_label.simps(6))
  next
    case (Returning r)
    then show ?thesis
      by (cases "rs_deferred s") (metis main_label.simps(8) returns, metis main_label.simps(7) defers)
  qed blast
qed

theorem Run_returns_witness:
  "\<exists>s. run_trace idle_lib (Some (\<lambda>_. 0)) (Run_start (Some (\<lambda>_. 0)) 7) [Signal_arrives ''interrupt''] s \<and>
     ((\<exists>r. rs_main s = Returned r) \<or> (\<exists>l s'. main_label l \<and> run_step idle_lib (Some (\<lambda>_. 0)) s l s'))"
proof -
  let ?s0 = "Run_start (Some (\<lambda>_. 0)) (7 :: nat)"
  have "run_step idle_lib (Some (\<lambda>_. 0)) ?s0 (Signal_arrives ''interrupt'') (?s0\<lparr>rs_signals := Some ''interrupt''\<rparr>)"
    using run_step.signal [of ?s0 "''interrupt''" idle_lib "Some (\<lambda>_. 0)"]
    by (simp add: Run_start_def notified_signals_def)
  from run_trace_Cons [OF this run_trace.start]
  have t: "run_trace idle_lib (Some (\<lambda>_. 0)) ?s0 [Signal_arrives ''interrupt''] (?s0\<lparr>rs_signals := Some ''interrupt''\<rparr>)" .
  from Run_returns [OF t, of "''interrupt''"] t show ?thesis by auto
qed

text \<open>A command line that names a file, and a file that holds the configuration of the demo.\<close>

definition demo_main :: "(boot, nat) main_lib" where
  "demo_main =
     \<lparr>ml_config = \<lparr>os_Stat = (\<lambda>p s. (None, s)), cleanenv_ReadConfig = (\<lambda>ts p s. (Inr demo_cfg, s))\<rparr>,
      ml_migrate = \<lparr>migrate_New = (\<lambda>p u s. (Inr 0, s)), migrate_Up = (\<lambda>m s. (Some (Sentinel MigrateErrNoChange), s)),
        migrate_Close = (\<lambda>m s. s)\<rparr>,
      ml_Parsed = False, ml_config_flag = Some ''config/local.yaml'', ml_Getenv = (\<lambda>_. [])\<rparr>"

lemma demo_main_runs:
  "\<exists>app cleanup s. main_start demo_main boot_libs (boot_start []) = Some (MainRuns app cleanup, s)"
proof -
  from boot_up obtain app cl s where up: "InitializeApp boot_libs demo_cfg (boot_start []) = Some (Inr (app, cl), s)"
    by blast
  have "\<not> cfg_RunMigrations demo_cfg" by (simp add: demo_cfg_def)
  with up show ?thesis by (simp add: main_start_def demo_main_def fetchConfigPath_def MustLoad_def)
qed

text \<open>
  C34. \<open>main\<close> serves only after everything has worked, in this order: a configuration path is
  found, the configuration is read, the migrations are up to date if they are asked for (either
  applied now or with nothing to change), and the application is initialized with that
  configuration, which start-up accepts.
\<close>

theorem main_start_order:
  assumes "resource_log (lib_rt d) (lib_grpc d) changes (lib_pgx d) (lib_redis d) lg"
    and "main_start ml d w = Some (MainRuns app cleanup, w')"
  shows "\<exists>path cfg w1 w2. fetchConfigPath (ml_Parsed ml) (ml_config_flag ml) (ml_Getenv ml) = Some path \<and>
     path \<noteq> [] \<and> MustLoad (lib_foreign d) (ml_config ml) path w = (Ok cfg, w1) \<and>
     (if cfg_RunMigrations cfg
      then \<exists>m v e. migrate_New (ml_migrate ml) ''file://./migrations'' (cfg_DatabaseURL cfg) w1 = (Inr m, v) \<and>
             (e = None \<or> (\<exists>x. e = Some x \<and> errors_Is x MigrateErrNoChange)) \<and>
             (\<exists>v'. migrate_Up (ml_migrate ml) m v = (e, v') \<and> w2 = migrate_Close (ml_migrate ml) m v')
      else w2 = w1) \<and>
     InitializeApp d cfg w2 = Some (Inr (app, cleanup), w') \<and> 0 < cfg_MaxRetries cfg \<and>
     sso_Addr (cfg_SSO cfg) \<noteq> [] \<and> sso_ApplicationID (cfg_SSO cfg) \<noteq> 0 \<and> sso_AppSecret (cfg_SSO cfg) \<noteq> []"
proof -
  from assms(2) obtain path cfg w1 w2 where
    path: "fetchConfigPath (ml_Parsed ml) (ml_config_flag ml) (ml_Getenv ml) = Some path" and
    load: "MustLoad (lib_foreign d) (ml_config ml) path w = (Ok cfg, w1)" and
    mig: "(if cfg_RunMigrations cfg then RunMigrations (ml_migrate ml) ''file://./migrations'' cfg w1
           else (None, w1)) = (None, w2)" and
    init: "InitializeApp d cfg w2 = Some (Inr (app, cleanup), w')"
    by (auto simp: main_start_def split: option.splits prod.splits outcome.splits sum.splits)
  have "path \<noteq> []" using load by (auto simp: MustLoad_def)
  moreover have "accepted_config cfg"
    using initialized_config [OF assms(1) init] .
  moreover have "if cfg_RunMigrations cfg
      then \<exists>m v e. migrate_New (ml_migrate ml) ''file://./migrations'' (cfg_DatabaseURL cfg) w1 = (Inr m, v) \<and>
             (e = None \<or> (\<exists>x. e = Some x \<and> errors_Is x MigrateErrNoChange)) \<and>
             (\<exists>v'. migrate_Up (ml_migrate ml) m v = (e, v') \<and> w2 = migrate_Close (ml_migrate ml) m v')
      else w2 = w1"
    using mig by (auto simp: RunMigrations_def Let_def split: prod.splits sum.splits option.splits if_splits)
  ultimately show ?thesis using path load init by (auto simp: accepted_config_def)
qed

theorem main_start_order_witness:
  "\<exists>app cleanup s. main_start demo_main boot_libs (boot_start []) = Some (MainRuns app cleanup, s) \<and>
     (\<exists>path cfg w1 w2. path \<noteq> [] \<and> MustLoad (lib_foreign boot_libs) (ml_config demo_main) path (boot_start []) = (Ok cfg, w1) \<and>
        InitializeApp boot_libs cfg w2 = Some (Inr (app, cleanup), s))"
proof -
  have lg: "resource_log (lib_rt boot_libs) (lib_grpc boot_libs) (\<lambda>t c s. length (bt_states s))
      (lib_pgx boot_libs) (lib_redis boot_libs) bt_log"
    by (simp add: boot.resource_log_axioms)
  from demo_main_runs obtain app cleanup s where
    run: "main_start demo_main boot_libs (boot_start []) = Some (MainRuns app cleanup, s)" by blast
  from main_start_order [OF lg run] run show ?thesis by blast
qed

end
