(* ===== verification/Deployment.thy ===== *)
theory Deployment
  imports App_Main
begin

text \<open>
  The whole program in its place. The locale \<open>deployment\<close> gathers what the assembled
  application relies on of the libraries: the contracts of the two servers, of the validator and
  of chi, and that the remaining libraries leave the stored links alone. From it follow the
  contract \<open>protected_site\<close> and the safety of redirects for the very handler that the injectors
  return.
\<close>

section \<open>The handler the injectors return\<close>

definition assembled_service ::
  "('w, 'p, 'r, 'c, 'v) libs \<Rightarrow> AppConfig \<Rightarrow> 'p \<Rightarrow> 'r \<Rightarrow> 'w cached Service" where
  "assembled_service d cfg p r =
     \<lparr>srv_repository = cache_storage (lib_rt d)
        (Cache_New (lib_group_Do d) (postgres_storage (lib_rt d) (pgxpool_ops (lib_pgx d) p))
           (redis_ops (lib_redis d) r) (cfg_TTL cfg)),
      srv_generator = Generate (random_New (lib_rand d) (cfg_AliasLength cfg) []),
      srv_cfg = \<lparr>MaxRetries = cfg_MaxRetries cfg\<rparr>\<rparr>"

definition assembled_site ::
  "('w, 'p, 'r, 'c, 'v) libs \<Rightarrow> AppConfig \<Rightarrow> 'p \<Rightarrow> 'r \<Rightarrow> 'c \<Rightarrow> 'v \<Rightarrow> 'w cached site" where
  "assembled_site d cfg p r c v =
     router_site d (provideLogger cfg)
       (Handler_New (url_service_of (lift_runtime (lib_rt d)) (assembled_service d cfg p r)) v)
       (NewAuth (sso_service (lift_runtime (lib_rt d)) (lib_foreign d)
          (cached_client \<lparr>cl_conn = c, cl_api = lib_AuthClient d c, cl_appID = sso_ApplicationID (cfg_SSO cfg)\<rparr>)))
       \<lparr>ver_secret = sso_AppSecret (cfg_SSO cfg), ver_applicationID = sso_ApplicationID (cfg_SSO cfg)\<rparr> p r"

lemma Client_New_fields:
  assumes "Client_New rt lib mk x opts w = Some (Inr c, w')"
  shows "c = \<lparr>cl_conn = cl_conn c, cl_api = mk (cl_conn c), cl_appID = opt_ApplicationID opts\<rparr>"
  using assms by (auto simp: Client_New_def Let_def split: option.splits prod.splits sum.splits)

lemma InitializeRouter_assembled:
  assumes "InitializeRouter d cfg w = Some (Inr (h, cl), w')"
  obtains p r c v where "validation_New (lib_authority_ok d) (lib_validator d) = Inr v"
    "h = NewRouter (lib_float64 d) (lift_runtime (lib_rt d)) (assembled_site d cfg p r c v)"
proof -
  from assms obtain p cl1 w1 r cl2 w2 s v c cl3 w3 vf where
    srv: "Service_New (cache_storage (lib_rt d)
        (Cache_New (lib_group_Do d) (postgres_storage (lib_rt d) (pgxpool_ops (lib_pgx d) p))
           (redis_ops (lib_redis d) r) (provideCacheTTL cfg)))
        (Generate (provideAliasGenerator (lib_rand d) cfg)) (provideServiceConfig cfg) = Inr s" and
    v: "provideValidator (lib_authority_ok d) (lib_validator d) = Inr v" and
    sc: "provideSSOClient (lib_rt d) (lib_grpc d) (lib_AuthClient d) (provideSSOClientOptions cfg) w2 =
      Some (Inr (c, cl3), w3)" and
    vf: "provideAuthVerifier cfg = Inr vf" and
    h: "h = NewRouter (lib_float64 d) (lift_runtime (lib_rt d))
      (router_site d (provideLogger cfg) (Handler_New (url_service_of (lift_runtime (lib_rt d)) s) v)
        (NewAuth (sso_service (lift_runtime (lib_rt d)) (lib_foreign d) (cached_client c))) vf p r)"
    by (auto simp: InitializeRouter_def Let_def split: option.splits prod.splits sum.splits)
  have s: "s = assembled_service d cfg p r"
    using srv by (auto simp: Service_New_def assembled_service_def provideCacheTTL_def provideAliasGenerator_def
        provideServiceConfig_def split: option.splits)
  have c: "c = \<lparr>cl_conn = cl_conn c, cl_api = lib_AuthClient d (cl_conn c), cl_appID = sso_ApplicationID (cfg_SSO cfg)\<rparr>"
    using sc by (auto simp: provideSSOClient_def provideSSOClientOptions_def Let_def
        split: option.splits prod.splits sum.splits dest!: Client_New_fields)
  have f: "vf = \<lparr>ver_secret = sso_AppSecret (cfg_SSO cfg), ver_applicationID = sso_ApplicationID (cfg_SSO cfg)\<rparr>"
    using vf by (auto simp: provideAuthVerifier_def NewVerifier_def split: if_splits)
  show thesis
  proof (rule that)
    show "validation_New (lib_authority_ok d) (lib_validator d) = Inr v"
      using v by (simp add: provideValidator_def)
    show "h = NewRouter (lib_float64 d) (lift_runtime (lib_rt d)) (assembled_site d cfg p r (cl_conn c) v)"
      unfolding h s f assembled_site_def by (subst c) (rule refl)
  qed
qed

lemma InitializeApp_assembled:
  assumes "InitializeApp d cfg w = Some (Inr (app, cl), w')"
  obtains p r c v where "validation_New (lib_authority_ok d) (lib_validator d) = Inr v"
    "server_Handler (app_server app) =
       NewRouter (lib_float64 d) (lift_runtime (lib_rt d)) (assembled_site d cfg p r c v)"
proof -
  from assms obtain res where res: "InitializeRouter d cfg w = Some (res, w')"
    "map_sum id (\<lambda>(h, cl). (serve_with cfg h, cl)) res = Inr (app, cl)"
    by (auto simp: InitializeApp_eq)
  then obtain h where "InitializeRouter d cfg w = Some (Inr (h, cl), w')" "app = serve_with cfg h"
    by (cases res) auto
  then show thesis
    by (elim InitializeRouter_assembled) (auto simp: serve_with_def App_New_def NewServer_def intro: that)
qed

section \<open>A site that redirects to web addresses only\<close>

definition location_ok :: "handled \<Rightarrow> bool" where
  "location_ok out \<longleftrightarrow> (\<forall>resp l. out = Responds resp \<longrightarrow> hr_location resp = Some l \<longrightarrow> http_url l)"

lemma location_ok_simps [simp]:
  "location_ok (Responds resp) \<longleftrightarrow> (\<forall>l. hr_location resp = Some l \<longrightarrow> http_url l)"
  "location_ok (Panics m)" "location_ok Hangs" "location_ok Unwritten" "location_ok Aborts"
  by (auto simp: location_ok_def)

lemma Handler_Save_location: "Handler_Save lib dec h q s = (out, s') \<Longrightarrow> location_ok out"
  by (auto simp: Handler_Save_def split: sum.splits validation_result.splits prod.splits outcome.splits)

lemma Handler_Delete_location: "Handler_Delete h q s = (out, s') \<Longrightarrow> location_ok out"
  by (auto simp: Handler_Delete_def Let_def split: if_splits prod.splits option.splits)

definition site_handlers :: "'w site \<Rightarrow> 'w handler set" where
  "site_handlers st =
     {site_save st, site_get st, site_delete st, site_register st, site_login st, site_refresh st,
      site_logout st, site_probe st}"

locale safe_web = chi_library chi "site_RequestID st" "site_Recoverer st"
  for chi :: chi_find and st :: "'w site" +
  fixes rt :: "'w runtime" and good :: "'w \<Rightarrow> bool"
  assumes now_good: "good w \<Longrightarrow> time_Now rt w = (t, w') \<Longrightarrow> good w'"
    and emit_good: "good (web_rest s) \<Longrightarrow> good (web_rest (site_emit st lv msg ats n s))"
    and verify_good: "good w \<Longrightarrow> site_verify st tok w = (res, w') \<Longrightarrow> good w'"
    and handler_good: "h \<in> site_handlers st \<Longrightarrow> good w \<Longrightarrow> h r w = (out, w') \<Longrightarrow> good w' \<and> location_ok out"
begin

lemma web_lift_good:
  assumes "good (web_rest s)" and "h \<in> site_handlers st" and "web_lift h r s = (out, s')"
  shows "good (web_rest s') \<and> location_ok out"
  using assms handler_good by (auto simp: web_lift_def split: prod.splits)

lemma limit_good:
  assumes "good (web_rest s)"
    and "\<And>u u' out. good (web_rest u) \<Longrightarrow> nxt r u = (out, u') \<Longrightarrow> good (web_rest u') \<and> location_ok out"
  shows "auth_limit fl rt nxt r s = (out, s') \<Longrightarrow> good (web_rest s') \<and> location_ok out"
    and "write_limit fl rt nxt r s = (out, s') \<Longrightarrow> good (web_rest s') \<and> location_ok out"
proof -
  obtain t w1 where now: "time_Now rt (web_rest s) = (t, w1)" by (metis surj_pair)
  note g = now_good [OF assms(1) now]
  have after: "good (web_rest (s\<lparr>web_rest := w1, web_auth := l\<rparr>))" "good (web_rest (s\<lparr>web_rest := w1, web_write := l\<rparr>))"
    for l using g by simp_all
  show "good (web_rest s') \<and> location_ok out" if "auth_limit fl rt nxt r s = (out, s')"
    using that now g assms(2) [OF after(1)]
    by (auto simp: auth_limit_def Limiter_Middleware_def web_runtime_def Let_def split: prod.splits if_splits)
  show "good (web_rest s') \<and> location_ok out" if "write_limit fl rt nxt r s = (out, s')"
    using that now g assms(2) [OF after(2)]
    by (auto simp: write_limit_def Limiter_Middleware_def web_runtime_def Let_def split: prod.splits if_splits)
qed

lemma auth_router_good:
  assumes "good (web_rest s)" and "sub_dispatch chi (auth_router fl rt st) path r s = (out, s')"
  shows "good (web_rest s') \<and> location_ok out"
  using assms(2)
proof (cases rule: auth_dispatch [OF chi_library_axioms, consumes 1, case_names unmatched auth])
  case (auth h)
  from web_lift_good [OF assms(1) _ auth(3)] auth(1) show ?thesis by (auto simp: site_handlers_def)
qed (use assms(1) in auto)

lemma guarded_good:
  assumes "good (web_rest s)" and "h \<in> site_handlers st" and "guarded fl rt st h r s = (out, s')"
  shows "good (web_rest s') \<and> location_ok out"
proof (cases "HasPrefix (Header_Get r ''Authorization'') ''Bearer ''")
  case False
  with assms show ?thesis by (auto simp: guarded_def RequireAuth_def)
next
  case True
  obtain res w1 where v: "site_verify st (TrimPrefix (Header_Get r ''Authorization'') ''Bearer '') (web_rest s) = (res, w1)"
    by (metis surj_pair)
  note g = verify_good [OF assms(1) v]
  show ?thesis
  proof (cases res)
    case (Inl e)
    with assms(3) True v g show ?thesis by (auto simp: guarded_def RequireAuth_def web_call_def)
  next
    case (Inr c)
    with assms(3) True v have lim: "write_limit fl rt (web_lift h) (with_claims r c) (s\<lparr>web_rest := w1\<rparr>) = (out, s')"
      by (simp add: guarded_def RequireAuth_def web_call_def)
    from g have g1: "good (web_rest (s\<lparr>web_rest := w1\<rparr>))" by simp
    show ?thesis by (rule limit_good(2) [OF g1 _ lim]) (rule web_lift_good [OF _ assms(2)])
  qed
qed

lemma ServeHTTP_good:
  assumes "ServeHTTP chi (NewRouter fl rt st) r s = (out, s')" and "good (web_rest s)"
  shows "good (web_rest s') \<and> location_ok out"
proof -
  from ServeHTTP_NewRouter [OF chi_library_axioms assms(1)] obtain r' d s1 where
    d: "mux_dispatch chi (NewRouter fl rt st) r' s = (d, s1)" and out: "out = recovered r d"
    and s': "s' = (if req_Path r = ''/health'' \<or> d = Hangs then s1
           else (case log_choice (written_status out) of (level, msg) \<Rightarrow>
                   site_emit st level msg (request_attrs r') (written_status out) s1))" by blast
  from d have "good (web_rest s1) \<and> location_ok d"
  proof (cases rule: NewRouter_dispatch [OF chi_library_axioms, consumes 1,
        case_names unmatched auth get save delete probe])
    case (unmatched resp)
    with assms(2) show ?thesis by simp
  next
    case (auth ps)
    show ?thesis by (rule limit_good(1) [OF assms(2) _ auth(2)]) (rule auth_router_good)
  next
    case (get a)
    from web_lift_good [OF assms(2) _ get(3)] show ?thesis by (simp add: site_handlers_def)
  next
    case save
    from guarded_good [OF assms(2) _ save(3)] show ?thesis by (simp add: site_handlers_def)
  next
    case (delete a)
    from guarded_good [OF assms(2) _ delete(3)] show ?thesis by (simp add: site_handlers_def)
  next
    case probe
    from web_lift_good [OF assms(2) _ probe(3)] show ?thesis by (simp add: site_handlers_def)
  qed
  then show ?thesis
    by (cases d) (auto simp: s' out recovered_def emit_good write_header_def split: prod.splits)
qed

end

section \<open>The deployment\<close>

text \<open>A call that leaves the stored links alone; live cache entries may expire meanwhile.\<close>

definition undisturbed :: "('w \<Rightarrow> links) \<Rightarrow> ('w \<Rightarrow> links) \<Rightarrow> 'w \<Rightarrow> 'w \<Rightarrow> bool" where
  "undisturbed rows kv w w' \<longleftrightarrow> rows w' = rows w \<and> kv w' \<subseteq>\<^sub>m kv w"

lemma undisturbed_links:
  "undisturbed rows kv (snd s) (snd s') \<Longrightarrow> all_links P rows kv s \<Longrightarrow> all_links P rows kv s'"
  by (auto simp: undisturbed_def all_links_def dest: map_leD)

lemma undisturbed_refl [simp]: "undisturbed rows kv w w"
  by (simp add: undisturbed_def)

lemma undisturbed_trans:
  "undisturbed rows kv w w' \<Longrightarrow> undisturbed rows kv w' w'' \<Longrightarrow> undisturbed rows kv w w''"
  by (auto simp: undisturbed_def intro: map_le_trans)

locale deployment =
  chi_library chi "lib_RequestID d" "lib_Recoverer d" +
  validator_engine "lib_validator d" custom builtin
  for chi :: chi_find and d :: "('w, 'p, 'r, 'c, 'v) libs"
    and custom :: "'v \<Rightarrow> string \<rightharpoonup> (string \<Rightarrow> bool)" and builtin :: "tag \<Rightarrow> string \<Rightarrow> bool" +
  fixes rows :: "'w \<Rightarrow> links" and kv :: "'w \<Rightarrow> links"
  assumes stores: "cached_store (Cache_New (lib_group_Do d) (postgres_storage (lib_rt d) (pgxpool_ops (lib_pgx d) p))
        (redis_ops (lib_redis d) r) ttl) rows (lib_rt d) kv"
    and ctx_calm: "ctx_Err (lib_rt d) x w = (ce, w') \<Longrightarrow> undisturbed rows kv w w' \<and>
        (\<forall>e. ce = Some e \<longrightarrow> \<not> errors_Is e ErrURLExist \<and> \<not> errors_Is e ErrInvalidURL)"
    and rand_calm: "reads_frame (lib_rand d) (\<lambda>s. (rows (snd s), kv (snd s)))
        (\<lambda>e. \<not> errors_Is e ErrURLExist \<and> \<not> errors_Is e ErrInvalidURL)"
    and pool_ping_calm: "pool_Ping (pgxpool_ops (lib_pgx d) p) x w = (ce, w') \<Longrightarrow> undisturbed rows kv w w'"
    and redis_ping_calm: "rdb_Ping (redis_ops (lib_redis d) r) x w = (ce, w') \<Longrightarrow> undisturbed rows kv w w'"
    and register_calm: "api_Register (lib_AuthClient d c) x e q w = (res1, w') \<Longrightarrow> undisturbed rows kv w w'"
    and login_calm: "api_Authenticate (lib_AuthClient d c) x e q a w = (res2, w') \<Longrightarrow> undisturbed rows kv w w'"
    and refresh_calm: "api_RefreshTokens (lib_AuthClient d c) x e a w = (res2, w') \<Longrightarrow> undisturbed rows kv w w'"
    and logout_calm: "api_Logout (lib_AuthClient d c) x e w = (ce, w') \<Longrightarrow> undisturbed rows kv w w'"
    and jwt_calm: "lib_jwt_Parse d t k ms s = (res3, s') \<Longrightarrow> undisturbed rows kv (snd s) (snd s')"
    and emit_calm: "undisturbed rows kv (snd (web_rest u)) (snd (web_rest (lib_emit d lg lv msg ats n u))) \<and>
        web_write (lib_emit d lg lv msg ats n u) = web_write u"
begin

abbreviation "rt \<equiv> lift_runtime (lib_rt d)"
abbreviation "calm s s' \<equiv> undisturbed rows kv (snd s) (snd s')"

lemma now_calm: "time_Now rt s = (t, s') \<Longrightarrow> calm s s'"
  using cached_store.now_rows [OF stores] redis_server.now_kv [OF cached_store.axioms(2) [OF stores]]
  by (auto simp: lift_runtime_def undisturbed_def split: prod.splits)

lemma runtime_ctx_calm:
  "ctx_Err rt x s = (ce, s') \<Longrightarrow> calm s s' \<and>
     (\<forall>e. ce = Some e \<longrightarrow> \<not> errors_Is e ErrURLExist \<and> \<not> errors_Is e ErrInvalidURL)"
  by (auto simp: lift_runtime_def split: prod.splits dest!: ctx_calm)

lemma on_world_calm:
  "on_world (api_Register (lib_AuthClient d c) x e q) s = (res1, s') \<Longrightarrow> calm s s'"
  "on_world (api_Authenticate (lib_AuthClient d c) x e q n) s = (res2, s') \<Longrightarrow> calm s s'"
  "on_world (api_RefreshTokens (lib_AuthClient d c) x e n) s = (res2, s') \<Longrightarrow> calm s s'"
  "on_world (api_Logout (lib_AuthClient d c) x e) s = (ce, s') \<Longrightarrow> calm s s'"
  "on_world (PostgresRepo_Ping (pgxpool_ops (lib_pgx d) p) x) s = (ce, s') \<Longrightarrow> calm s s'"
  "on_world (rdb_Ping (redis_ops (lib_redis d) r) x) s = (ce, s') \<Longrightarrow> calm s s'"
  by (auto simp: on_world_def PostgresRepo_Ping_def split: prod.splits
      dest: register_calm login_calm refresh_calm logout_calm pool_ping_calm redis_ping_calm)

lemma generator_calm:
  assumes "Generate (random_New (lib_rand d) len []) s = (res, s')"
  shows "rows (snd s') = rows (snd s) \<and> kv (snd s') = kv (snd s) \<and>
    (\<forall>e. res = Err e \<longrightarrow> \<not> errors_Is e ErrURLExist \<and> \<not> errors_Is e ErrInvalidURL)"
proof -
  have rd: "entropyReader (random_New (lib_rand d) len []) = lib_rand d" by (simp add: random_New_def)
  from Generate_frame [of "random_New (lib_rand d) len []", unfolded rd, OF rand_calm assms] show ?thesis by auto
qed

lemma service_guarded: "guarded_service (assembled_service d cfg p r) (all_links http_url rows kv) http_url rt"
proof (intro guarded_service.intro guarded_service_axioms.intro, goal_cases)
  case 1
  have "guarded_store (cache_storage (lib_rt d)
      (Cache_New (lib_group_Do d) (postgres_storage (lib_rt d) (pgxpool_ops (lib_pgx d) p))
        (redis_ops (lib_redis d) r) (cfg_TTL cfg))) (all_links http_url rows kv) http_url"
  proof (unfold_locales, goal_cases)
    case (1 s u x a r s')
    from cached_store.Save_guarded [OF stores 1(1,2)] 1(3) show ?case by simp
  next
    case (2 s x a g s')
    from cached_store.Get_guarded [OF stores 2(1)] 2(2) show ?case by simp
  next
    case (3 s x a r s')
    from cached_store.Delete_guarded [OF stores 3(1)] 3(2) show ?case by simp
  qed
  then show ?case by (simp add: assembled_service_def)
next
  case (2 s x e s')
  then show ?case by (blast dest: runtime_ctx_calm intro: undisturbed_links)
next
  case (3 s g s')
  then show ?case by (auto simp: assembled_service_def all_links_def dest!: generator_calm)
qed

lemma repository_reads:
  assumes "Service_Get (assembled_service d cfg p r) x a s = (g, s')"
  shows "rows (snd s') = rows (snd s)"
proof -
  let ?c = "Cache_New (lib_group_Do d) (postgres_storage (lib_rt d) (pgxpool_ops (lib_pgx d) p))
        (redis_ops (lib_redis d) r) (cfg_TTL cfg)"
  have "rows (snd t') = rows (snd t)" if "Cache_Get (lib_rt d) ?c y b t = (o', t')" for y b t o' t'
    using that by (rule cached_store.Get_spec [OF stores]) auto
  with assms show ?thesis
    by (auto simp: Service_Get_def assembled_service_def Let_def split: if_splits prod.splits sum.splits)
qed

text \<open>The assembled site satisfies both contracts.\<close>

lemmas client_calls =
  Client_Register_def Client_Login_def Client_RefreshTokens_def Client_Logout_def cached_client_def

lemma client_calm:
  fixes c :: 'c and n :: "64 word"
  defines "cl \<equiv> cached_client \<lparr>cl_conn = c, cl_api = lib_AuthClient d c, cl_appID = n\<rparr>"
  shows "Client_Register rt f cl x e q s = (res1, s') \<Longrightarrow> calm s s'"
    and "Client_Login rt f cl x e q s = (res2, s') \<Longrightarrow> calm s s'"
    and "Client_RefreshTokens rt f cl x e s = (res2, s') \<Longrightarrow> calm s s'"
    and "Client_Logout rt f cl x e s = (res3, s') \<Longrightarrow> calm s s'"
  unfolding cl_def
  by (auto simp: client_calls split: prod.splits dest!: now_calm on_world_calm intro: undisturbed_trans)

lemma auth_handlers_calm:
  fixes c :: 'c and n :: "64 word" and f :: "go_error \<Rightarrow> string"
  defines "ah \<equiv> NewAuth (sso_service rt f (cached_client \<lparr>cl_conn = c, cl_api = lib_AuthClient d c, cl_appID = n\<rparr>))"
  shows "AuthHandler_Register ok dec ah q s = (out, s') \<Longrightarrow> calm s s' \<and> location_ok out"
    and "AuthHandler_Login ok dec2 ah q s = (out, s') \<Longrightarrow> calm s s' \<and> location_ok out"
    and "AuthHandler_Refresh dec3 ah q s = (out, s') \<Longrightarrow> calm s s' \<and> location_ok out"
    and "AuthHandler_Logout dec3 ah q s = (out, s') \<Longrightarrow> calm s s' \<and> location_ok out"
  unfolding ah_def
  by (auto simp: AuthHandler_Register_def AuthHandler_Login_def AuthHandler_Refresh_def AuthHandler_Logout_def
      split: sum.splits option.splits if_splits prod.splits dest: client_calm)

lemma probe_calm:
  "ReadinessProbe (\<lambda>x. on_world (PostgresRepo_Ping (pgxpool_ops (lib_pgx d) p) x))
     (\<lambda>x. on_world (rdb_Ping (redis_ops (lib_redis d) r) x)) q s = (out, s') \<Longrightarrow> calm s s' \<and> location_ok out"
  by (auto simp: ReadinessProbe_def write_text_def split: prod.splits option.splits
      dest!: on_world_calm intro: undisturbed_trans)

lemma verify_calm: "Verify (lib_jwt_Parse d) oob vf tok s = (res, s') \<Longrightarrow> calm s s'"
  by (auto simp: Verify_def Let_def split: if_splits prod.splits sum.splits token_claims.splits dest!: jwt_calm)

lemma link_get_calm:
  assumes "Handler_Get ok (Handler_New (url_service_of rt (assembled_service d cfg p r)) v) q s = (out, s')"
  shows "rows (snd s') = rows (snd s)"
  using assms by (auto simp: Handler_Get_def Let_def split: if_splits prod.splits sum.splits dest: repository_reads)

lemma site_fields:
  "site_RequestID (assembled_site d cfg p r c v) = lib_RequestID d"
  "site_Recoverer (assembled_site d cfg p r c v) = lib_Recoverer d"
  by (simp_all add: assembled_site_def router_site_def)

lemmas site_defs = assembled_site_def router_site_def

lemma site_safe:
  assumes "validation_New (lib_authority_ok d) (lib_validator d) = Inr v"
  shows "safe_web chi (assembled_site d cfg p r c v) rt (all_links http_url rows kv)"
proof -
  let ?st = "assembled_site d cfg p r c v" and ?h = "Handler_New (url_service_of rt (assembled_service d cfg p r)) v"
  have gs: "guarded_site (lib_validator d) custom builtin (assembled_service d cfg p r) (all_links http_url rows kv) rt
      (lib_authority_ok d) v"
    by (intro guarded_site.intro guarded_site_axioms.intro validator_engine_axioms service_guarded assms)
  have links: "all_links http_url rows kv s' \<and> location_ok out"
    if "all_links http_url rows kv s" and "h \<in> {site_save ?st, site_get ?st, site_delete ?st}" and "h q s = (out, s')"
    for h q s out s'
  proof -
    from that(2,3) consider
        "Handler_Save (lib_validator d) (lib_DecodeSave d) ?h q s = (out, s')"
      | "Handler_Get (lib_authority_ok d) ?h q s = (out, s')" | "Handler_Delete ?h q s = (out, s')"
      by (auto simp: site_defs)
    then show ?thesis
    proof cases
      case 1
      from guarded_site.Handler_Save_safe [OF gs that(1) 1] Handler_Save_location [OF 1] show ?thesis by simp
    next
      case 2
      from guarded_site.Handler_Get_safe [OF gs that(1) 2] show ?thesis by (simp add: location_ok_def)
    next
      case 3
      from guarded_site.Handler_Delete_safe [OF gs that(1) 3] Handler_Delete_location [OF 3] show ?thesis by simp
    qed
  qed
  have others: "calm s s' \<and> location_ok out"
    if "h \<in> {site_register ?st, site_login ?st, site_refresh ?st, site_logout ?st, site_probe ?st}"
      and "h q s = (out, s')" for h q s out s'
    using that by (auto simp: site_defs dest: auth_handlers_calm probe_calm)
  show ?thesis
  proof (intro safe_web.intro safe_web_axioms.intro, goal_cases)
    case 1 show ?case using chi_library_axioms by (simp add: site_fields)
  next
    case (2 s t s') then show ?case by (blast dest: now_calm intro: undisturbed_links)
  next
    case (3 u lv msg ats n)
    have "calm (web_rest u) (web_rest (site_emit ?st lv msg ats n u))" using emit_calm by (simp add: site_defs Let_def)
    then show ?case using 3 by (rule undisturbed_links)
  next
    case (4 s tok res s')
    then have "calm s s'" by (auto simp: site_defs dest: verify_calm)
    then show ?case using 4(1) by (rule undisturbed_links)
  next
    case (5 h s q out s')
    from 5(1) consider "h \<in> {site_save ?st, site_get ?st, site_delete ?st}"
      | "h \<in> {site_register ?st, site_login ?st, site_refresh ?st, site_logout ?st, site_probe ?st}"
      by (auto simp: site_handlers_def)
    then show ?case
    proof cases
      case 1
      from links [OF 5(2) 1 5(3)] show ?thesis .
    next
      case 2
      from others [OF 2 5(3)] 5(2) show ?thesis by (blast intro: undisturbed_links)
    qed
  qed
qed

lemma site_protected: "protected_site chi (assembled_site d cfg p r c v) rt (\<lambda>s. rows (snd s))"
proof (intro protected_site.intro protected_site_axioms.intro, goal_cases)
  case 1 show ?case using chi_library_axioms by (simp add: site_fields)
next
  case (3 lv msg ats n u) then show ?case using emit_calm by (simp add: site_defs undisturbed_def Let_def)
next
  case (4 lv msg ats n u) then show ?case using emit_calm by (simp add: site_defs Let_def)
next
  case (5 q s out s') then show ?case by (auto simp: site_defs dest: link_get_calm)
qed (auto simp: site_defs undisturbed_def dest: now_calm auth_handlers_calm probe_calm verify_calm)

end

section \<open>The executable libraries\<close>

definition boot_rows :: "boot \<Rightarrow> links" where
  "boot_rows s = be_rows (bt_be s)"

definition boot_kv :: "boot \<Rightarrow> links" where
  "boot_kv s = be_kv (bt_be s)"

lemma boot_io_iff: "boot_io f s = (x, s') \<longleftrightarrow> (\<exists>w. f (bt_be s) = (x, w) \<and> s' = s\<lparr>bt_be := w\<rparr>)"
  by (auto simp: boot_io_def split: prod.splits)

lemma boot_calls [simp]:
  "time_Now boot_rt = boot_io (time_Now be_runtime)"
  "pool_Exec (pgxpool_ops boot_pgx p) x q as = boot_io (be_Exec x q as)"
  "pool_QueryRow (pgxpool_ops boot_pgx p) x q as = boot_io (be_QueryRow x q as)"
  "pool_Ping (pgxpool_ops boot_pgx p) x = boot_io (be_ping x)"
  "rdb_Get (redis_ops boot_redis r) x k = boot_io (be_rget x k)"
  "rdb_Set (redis_ops boot_redis r) x k v ttl = boot_io (be_rset x k v ttl)"
  "rdb_Del (redis_ops boot_redis r) x k = boot_io (be_rdel x k)"
  "rdb_Ping (redis_ops boot_redis r) x = boot_io (be_ping x)"
  by (simp_all add: boot_lib_defs)

lemma boot_rows_upd [simp]: "boot_rows (s\<lparr>bt_be := w\<rparr>) = be_rows w" "boot_kv (s\<lparr>bt_be := w\<rparr>) = be_kv w"
  by (simp_all add: boot_rows_def boot_kv_def)

lemmas boot_view = boot_io_iff boot_rows_def boot_kv_def

text \<open>The repository over the lifted pool is the lifted repository.\<close>

lemma boot_repo:
  "PostgresRepo_Save boot_rt (pgxpool_ops boot_pgx p) x u a = boot_io (PostgresRepo_Save be_runtime be_pool x u a)"
  "PostgresRepo_Get boot_rt (pgxpool_ops boot_pgx p) x a = boot_io (PostgresRepo_Get be_runtime be_pool x a)"
  "PostgresRepo_Delete boot_rt (pgxpool_ops boot_pgx p) x a = boot_io (PostgresRepo_Delete be_runtime be_pool x a)"
  by (rule ext, simp add: PostgresRepo_Save_def PostgresRepo_Get_def PostgresRepo_Delete_def boot_io_def Let_def
      split: prod.splits sum.splits option.splits)+

interpretation boot_pg: pg_server boot_rt "pgxpool_ops boot_pgx p" boot_rows for p
proof (unfold_locales, goal_cases)
  case (7 c a w n w') then show ?case by (auto simp: boot_view dest!: be_Exec_delete split: if_splits)
next
  case (9 c q args w e w') then show ?case by (auto simp: boot_view dest: be_Exec_foreign)
next
  case (10 c q args w e w') then show ?case by (auto simp: boot_view dest: be_QueryRow_frame)
qed (auto simp: boot_view dest: be_Exec_insert be_QueryRow_spec be_Exec_delete)

interpretation boot_cache: cached_store
    "Cache_New (\<lambda>k f. f) (postgres_storage boot_rt (pgxpool_ops boot_pgx p)) (redis_ops boot_redis r) ttl"
    boot_rows boot_rt boot_kv for p r ttl
proof (intro cached_store.intro cached_store_axioms.intro, goal_cases)
  case 1 show ?case using boot_pg.pg.link_reader_axioms by (simp add: Cache_New_def)
next
  case 2 show ?case
    by unfold_locales (auto simp: Cache_New_def boot_view dest: be_rget_spec be_rset_spec be_rdel_spec)
qed (auto simp: Cache_New_def boot_repo boot_view dest: be_rget_spec be_rset_spec be_rdel_spec postgres_kv)

lemma boot_entropy: "be_rows (w\<lparr>be_entropy := bs\<rparr>) = be_rows w" "be_kv (w\<lparr>be_entropy := bs\<rparr>) = be_kv w"
  by (simp_all add: be_rows_def be_kv_def cong: option.case_cong)

lemma boot_ctx:
  "ctx_Err boot_rt x s = (ce, s') \<Longrightarrow> s' = s \<and>
     (ce = None \<or> ce = Some (Sentinel ContextCanceled) \<or> ce = Some (Sentinel ContextDeadlineExceeded))"
  by (auto simp: boot_rt_def boot_io_iff be_runtime_def split: if_splits option.splits)

lemma boot_ping: "be_ping x w = (e, w') \<Longrightarrow> be_rows w' = be_rows w \<and> be_kv w' \<subseteq>\<^sub>m be_kv w"
  by (auto simp: be_ping_def split: prod.splits dest: next_event_rows next_event_kv)

lemma mini_Parse_frame: "mini_Parse t k ms s = (res, s') \<Longrightarrow> s' = s"
  by (auto simp: mini_Parse_def Let_def split: sum.splits if_splits)

lemma boot_lib_rest:
  "lib_group_Do boot_libs = (\<lambda>k f. f)" "lib_jwt_Parse boot_libs = mini_Parse"
  "lib_RequestID boot_libs = ref_RequestID" "lib_Recoverer boot_libs = ref_Recoverer"
  "lib_emit boot_libs lg lv msg ats n s = s" "lib_float64 boot_libs = fl64"
  by (simp_all add: boot_libs_def)

lemma boot_rand: "reads_frame (lib_rand boot_libs) (\<lambda>s. (boot_rows (snd s), boot_kv (snd s)))
    (\<lambda>e. \<not> errors_Is e ErrURLExist \<and> \<not> errors_Is e ErrInvalidURL)"
  by (auto simp: reads_frame_def boot_libs_def on_world_def boot_io_def boot_entropy boot_rows_def boot_kv_def
      split: prod.splits if_splits)

interpretation boot_site: deployment chi_ref boot_libs "\<lambda>v. v" eng_builtin boot_rows boot_kv
proof (intro deployment.intro deployment_axioms.intro, goal_cases)
  case 1 show ?case by (simp add: boot_lib_rest chi.chi_library_axioms)
next
  case 2 show ?case by (simp add: eng.validator_engine_axioms)
next
  case (3 p r ttl) show ?case by (simp add: boot_lib_rest boot_cache.cached_store_axioms)
next
  case (4 x w ce w') then show ?case by (auto dest: boot_ctx)
next
  case 5 show ?case by (rule boot_rand)
next
  case (6 p x w ce w') then show ?case by (auto simp: undisturbed_def boot_view dest: boot_ping)
next
  case (7 r x w ce w') then show ?case by (auto simp: undisturbed_def boot_view dest: boot_ping)
next
  case (12 t k ms s res s') then show ?case by (auto simp: boot_lib_rest dest: mini_Parse_frame)
next
  case 13 show ?case by (simp add: boot_lib_rest)
qed (auto simp: offline_api_def)

section \<open>Property\<close>

text \<open>The states of the running server after a list of requests.\<close>

definition served :: "chi_find \<Rightarrow> 'w web Mux \<Rightarrow> request list \<Rightarrow> 'w web \<Rightarrow> 'w web" where
  "served chi m rs s = fold (\<lambda>r s. snd (ServeHTTP chi m r s)) rs s"

lemma served_good:
  assumes "safe_web chi st rt good" and "good (web_rest s)"
  shows "good (web_rest (served chi (NewRouter fl rt st) rs s))"
  using assms(2)
proof (induction rs arbitrary: s)
  case Nil
  then show ?case by (simp add: served_def)
next
  case (Cons r rs)
  from safe_web.ServeHTTP_good [OF assms(1) prod.collapse [symmetric] Cons.prems]
  have "good (web_rest (snd (ServeHTTP chi (NewRouter fl rt st) r s)))" by blast
  from Cons.IH [OF this] show ?case by (simp add: served_def)
qed

text \<open>
  C1. The program as a whole, for the application that \<open>InitializeApp\<close> returns, started on a
  database and a Redis that hold only web addresses: after any sequence of requests, of any
  method, path and body, whatever the servers, the sso service and the clock do,
  every \<open>Location\<close> it answers with is an \<open>http\<close> or \<open>https\<close> address; and the request that
  changes a stored link is \<open>POST /url\<close> or a \<open>DELETE\<close> and carries a bearer token whose HS256
  signature verifies under the configured secret and whose \<open>app_id\<close> is the configured one.
\<close>

theorem app_serves_safely:
  assumes "deployment chi d custom builtin rows kv" and "jwt_library (lib_jwt_Parse d) sig_ok payload"
    and "InitializeApp d cfg w = Some (Inr (app, cleanup), w')"
    and "\<forall>a u. rows w' a = Some u \<or> kv w' a = Some u \<longrightarrow> http_url u"
    and "s = served chi (server_Handler (app_server app)) rs (app_start w')"
    and "ServeHTTP chi (server_Handler (app_server app)) r s = (out, s')"
  shows "(\<forall>resp l. out = Responds resp \<longrightarrow> hr_location resp = Some l \<longrightarrow> http_url l) \<and>
         (rows (snd (web_rest s')) \<noteq> rows (snd (web_rest s)) \<longrightarrow>
            (req_Method r = ''POST'' \<and> route_path r = ''/url'' \<or> req_Method r = ''DELETE'') \<and>
            (\<exists>t. Header_Get r ''Authorization'' = ''Bearer '' @ t \<and>
               sig_ok ''HS256'' (sso_AppSecret (cfg_SSO cfg)) t \<and>
               uint64_of_float (lib_oob d) (as_float (payload t ''app_id'')) = sso_ApplicationID (cfg_SSO cfg)))"
proof -
  obtain p q c v where
    v: "validation_New (lib_authority_ok d) (lib_validator d) = Inr v" and
    m: "server_Handler (app_server app) =
       NewRouter (lib_float64 d) (lift_runtime (lib_rt d)) (assembled_site d cfg p q c v)"
    by (rule InitializeApp_assembled [OF assms(3)])
  note run = assms(6) [unfolded m]
  have safe: "safe_web chi (assembled_site d cfg p q c v) (lift_runtime (lib_rt d)) (all_links http_url rows kv)"
    by (rule deployment.site_safe [OF assms(1) v])
  have "all_links http_url rows kv (web_rest (app_start w'))"
    using assms(4) by (simp add: all_links_def app_start_def NewRouter_start_def)
  from served_good [OF safe this] have good: "all_links http_url rows kv (web_rest s)"
    unfolding assms(5) m .
  from safe_web.ServeHTTP_good [OF safe run good] have loc: "location_ok out" ..
  have verify: "site_verify (assembled_site d cfg p q c v) = Verify (lib_jwt_Parse d) (lib_oob d)
      \<lparr>ver_secret = sso_AppSecret (cfg_SSO cfg), ver_applicationID = sso_ApplicationID (cfg_SSO cfg)\<rparr>"
    by (simp add: assembled_site_def router_site_def)
  have "(req_Method r = ''POST'' \<and> route_path r = ''/url'' \<or> req_Method r = ''DELETE'') \<and>
      (\<exists>t. Header_Get r ''Authorization'' = ''Bearer '' @ t \<and>
         sig_ok ''HS256'' (sso_AppSecret (cfg_SSO cfg)) t \<and>
         uint64_of_float (lib_oob d) (as_float (payload t ''app_id'')) = sso_ApplicationID (cfg_SSO cfg))"
    if "rows (snd (web_rest s')) \<noteq> rows (snd (web_rest s))"
  proof -
    from that have "kept (\<lambda>s. rows (snd s)) s' \<noteq> kept (\<lambda>s. rows (snd s)) s" by (simp add: kept_def)
    from protected_site.ServeHTTP_kept [OF deployment.site_protected [OF assms(1)] run this]
    obtain t cl u u' where t: "Header_Get r ''Authorization'' = ''Bearer '' @ t"
      and v: "site_verify (assembled_site d cfg p q c v) t u = (Inr cl, u')"
      and m: "req_Method r = ''POST'' \<and> route_path r = ''/url'' \<or> req_Method r = ''DELETE''" by blast
    from jwt_library.Verify_accepts [OF assms(2) v [unfolded verify]]
    have "sig_ok ''HS256'' (sso_AppSecret (cfg_SSO cfg)) t"
      "uint64_of_float (lib_oob d) (as_float (payload t ''app_id'')) = sso_ApplicationID (cfg_SSO cfg)" by simp_all
    with t m show ?thesis by blast
  qed
  with loc show ?thesis by (simp add: location_ok_def)
qed

theorem app_serves_safely_witness:
  "\<exists>app cleanup s0. InitializeApp boot_libs demo_cfg (boot_start []) = Some (Inr (app, cleanup), s0) \<and>
     (\<forall>resp l. fst (ServeHTTP chi_ref (server_Handler (app_server app)) get_go
          (served chi_ref (server_Handler (app_server app)) [post_go_authorized] (app_start s0))) = Responds resp \<longrightarrow>
        hr_location resp = Some l \<longrightarrow> http_url l)"
proof -
  from boot_up obtain app cl s0 where
    up: "InitializeApp boot_libs demo_cfg (boot_start []) = Some (Inr (app, cl), s0)" and
    empty: "bt_be s0 = empty_backend" by blast
  have links: "\<forall>a u. boot_rows s0 a = Some u \<or> boot_kv s0 a = Some u \<longrightarrow> http_url u"
    by (simp add: boot_rows_def boot_kv_def empty empty_backend_def be_rows_def be_kv_def)
  have jwt: "jwt_library (lib_jwt_Parse boot_libs) mini_signed mini_claims"
    by (simp add: boot_lib_rest mini.jwt_library_axioms)
  let ?m = "server_Handler (app_server app)"
  let ?s = "served chi_ref ?m [post_go_authorized] (app_start s0)"
  have run: "ServeHTTP chi_ref ?m get_go ?s = (fst (ServeHTTP chi_ref ?m get_go ?s), snd (ServeHTTP chi_ref ?m get_go ?s))"
    by simp
  from app_serves_safely [OF boot_site.deployment_axioms jwt up links refl run] up show ?thesis by blast
qed

end
