(* ===== verification/Interleaving.thy ===== *)
theory Interleaving
  imports Cache_Properties
begin

text \<open>
  The operations of the cache as they run in a server: many calls at once, each a sequence of
  steps between which the others take theirs. A step is one call on the database or on Redis, one
  look at the breaker, or one trip of it; the calls that miss in Redis meet in the singleflight
  group. On its own a call does what the operation of theory \<open>Redis_Cache\<close> does; together, what
  they return has been stored, and it is not always what is stored.
\<close>

section \<open>Calls as steps\<close>

datatype call_result = RSave "go_error option" | RGet string "go_error + string" | RDelete "go_error option"

text \<open>
  Where a call is: \<open>TestSet\<close> and \<open>DoSet\<close> are the write to Redis of a url under an alias, with the
  result that is returned after it; \<open>TripJoin\<close> and \<open>TripDone\<close> are the trip of the breaker, after
  which the call goes on; \<open>Waiting\<close> is a call that found another one in flight for its alias.
\<close>

datatype call_pc =
    Saving string string | TestSet string string call_result | DoSet string string call_result
  | Looking string | DoLookup string | Joining string | Waiting string nat | Loading string
  | Deleting string | TestDel string | DoDel string
  | TripJoin string | TripDone call_result | Done call_result

fun micro :: "'w runtime \<Rightarrow> 'w Cache \<Rightarrow> ctx \<Rightarrow> call_pc \<Rightarrow> 'w cached \<Rightarrow> call_pc \<times> 'w cached" where
  "micro rt c x (Saving u a) s =
     (case st_Save (cache_next c) x u a (snd s) of
        (Some e, w) \<Rightarrow> (Done (RSave (Some e)), (fst s, w))
      | (None, w) \<Rightarrow> (TestSet a u (RSave None), (fst s, w)))"
| "micro rt c x (TestSet a u r) s =
     (case redisAvailable rt s of (available, s1) \<Rightarrow> (if available then DoSet a u r else Done r, s1))"
| "micro rt c x (DoSet a u r) s =
     (case rdb_Set (cache_rdb c) x a u (cache_ttl c) (snd s) of (e, w) \<Rightarrow>
        (if e \<noteq> None then TripDone r else Done r, (fst s, w)))"
| "micro rt c x (Looking a) s =
     (case redisAvailable rt s of (available, s1) \<Rightarrow> (if available then DoLookup a else Joining a, s1))"
| "micro rt c x (DoLookup a) s =
     (case rdb_Get (cache_rdb c) x a (snd s) of
        (Inr v, w) \<Rightarrow> (Done (RGet a (Inr v)), (fst s, w))
      | (Inl e, w) \<Rightarrow> (if \<not> errors_Is e RedisNil then TripJoin a else Joining a, (fst s, w)))"
| "micro rt c x (Joining a) s = (Loading a, s)"
| "micro rt c x (Loading a) s =
     (case st_Get (cache_next c) x a (snd s) of
        (Inl e, w) \<Rightarrow> (Done (RGet a (Inl e)), (fst s, w))
      | (Inr u, w) \<Rightarrow> (TestSet a u (RGet a (Inr u)), (fst s, w)))"
| "micro rt c x (Deleting a) s =
     (case st_Delete (cache_next c) x a (snd s) of
        (Some e, w) \<Rightarrow> (Done (RDelete (Some e)), (fst s, w))
      | (None, w) \<Rightarrow> (TestDel a, (fst s, w)))"
| "micro rt c x (TestDel a) s =
     (case redisAvailable rt s of (available, s1) \<Rightarrow> (if available then DoDel a else Done (RDelete None), s1))"
| "micro rt c x (DoDel a) s =
     (case rdb_Del (cache_rdb c) x a (snd s) of (e, w) \<Rightarrow>
        (if e \<noteq> None then TripDone (RDelete None) else Done (RDelete None), (fst s, w)))"
| "micro rt c x (TripJoin a) s = (Joining a, markRedisDown rt s)"
| "micro rt c x (TripDone r) s = (Done r, markRedisDown rt s)"
| "micro rt c x (Waiting a l) s = (Waiting a l, s)"
| "micro rt c x (Done r) s = (Done r, s)"

text \<open>A call on its own, which finds no other in flight.\<close>

fun solo :: "'w runtime \<Rightarrow> 'w Cache \<Rightarrow> ctx \<Rightarrow> nat \<Rightarrow> call_pc \<Rightarrow> 'w cached \<Rightarrow> call_pc \<times> 'w cached" where
  "solo rt c x 0 p s = (p, s)"
| "solo rt c x (Suc n) p s = (case micro rt c x p s of (p', s') \<Rightarrow> solo rt c x n p' s')"

lemma solo_done: "solo rt c x n (Done r) s = (Done r, s)"
  by (induction n) auto

section \<open>Many calls\<close>

text \<open>
  The calls by number, the leader of every singleflight call in flight, and the shared world: the
  breaker and the servers.
\<close>

record 'w conc =
  cn_calls :: "nat \<rightharpoonup> ctx \<times> call_pc"
  cn_flights :: "string \<rightharpoonup> nat"
  cn_world :: "'w cached"

definition set_call :: "nat \<Rightarrow> ctx \<Rightarrow> call_pc \<Rightarrow> 'w conc \<Rightarrow> 'w conc" where
  "set_call i x p st = st\<lparr>cn_calls := (cn_calls st)(i \<mapsto> (x, p))\<rparr>"

text \<open>
  One turn of call \<open>i\<close>. The first to join leads and later leaves the map of calls in flight; the
  others wait for its result and return it.
\<close>

definition turn :: "'w runtime \<Rightarrow> 'w Cache \<Rightarrow> nat \<Rightarrow> 'w conc \<Rightarrow> 'w conc" where
  "turn rt c i st =
     (case cn_calls st i of
        None \<Rightarrow> st
      | Some (x, Joining a) \<Rightarrow>
          (case cn_flights st a of
             Some l \<Rightarrow> set_call i x (Waiting a l) st
           | None \<Rightarrow> (set_call i x (Loading a) st)\<lparr>cn_flights := (cn_flights st)(a \<mapsto> i)\<rparr>)
      | Some (x, Waiting a l) \<Rightarrow>
          (case cn_calls st l of Some (y, Done r) \<Rightarrow> set_call i x (Done r) st | _ \<Rightarrow> st)
      | Some (x, Done (RGet a g)) \<Rightarrow>
          (if cn_flights st a = Some i then st\<lparr>cn_flights := (cn_flights st)(a := None)\<rparr> else st)
      | Some (x, p) \<Rightarrow>
          (case micro rt c x p (cn_world st) of (p', s') \<Rightarrow> (set_call i x p' st)\<lparr>cn_world := s'\<rparr>))"

definition call_start :: "call_pc \<Rightarrow> bool" where
  "call_start p = (case p of Saving u a \<Rightarrow> True | Looking a \<Rightarrow> True | Deleting a \<Rightarrow> True | _ \<Rightarrow> False)"

text \<open>The runs, with the set of the states they went through.\<close>

inductive conc_run :: "'w runtime \<Rightarrow> 'w Cache \<Rightarrow> 'w cached \<Rightarrow> 'w conc set \<Rightarrow> 'w conc \<Rightarrow> bool"
  for rt :: "'w runtime" and c :: "'w Cache" and s0 :: "'w cached" where
  quiet: "st = \<lparr>cn_calls = Map.empty, cn_flights = Map.empty, cn_world = s0\<rparr> \<Longrightarrow> conc_run rt c s0 {st} st"
| arrives: "conc_run rt c s0 V st \<Longrightarrow> cn_calls st i = None \<Longrightarrow> call_start p \<Longrightarrow> st' = set_call i x p st \<Longrightarrow>
    conc_run rt c s0 (insert st' V) st'"
| turns: "conc_run rt c s0 V st \<Longrightarrow> st' = turn rt c i st \<Longrightarrow> conc_run rt c s0 (insert st' V) st'"

text \<open>The links that were in the database at some moment of a run.\<close>

definition ever :: "('w \<Rightarrow> links) \<Rightarrow> 'w conc set \<Rightarrow> (string \<times> string) set" where
  "ever rows V = {(a, u). \<exists>st\<in>V. rows (snd (cn_world st)) a = Some u}"

lemma ever_insert: "ever rows (insert st V) = {(a, u). rows (snd (cn_world st)) a = Some u} \<union> ever rows V"
  by (auto simp: ever_def)

text \<open>What a call carries was stored; which alias a call leads.\<close>

fun result_ok :: "(string \<times> string) set \<Rightarrow> call_result \<Rightarrow> bool" where
  "result_ok E (RGet a (Inr u)) \<longleftrightarrow> (a, u) \<in> E"
| "result_ok E _ \<longleftrightarrow> True"

fun pc_ok :: "(string \<times> string) set \<Rightarrow> call_pc \<Rightarrow> bool" where
  "pc_ok E (TestSet a u r) \<longleftrightarrow> (a, u) \<in> E \<and> result_ok E r"
| "pc_ok E (DoSet a u r) \<longleftrightarrow> (a, u) \<in> E \<and> result_ok E r"
| "pc_ok E (TripDone r) \<longleftrightarrow> result_ok E r"
| "pc_ok E (Done r) \<longleftrightarrow> result_ok E r"
| "pc_ok E _ \<longleftrightarrow> True"

lemma result_ok_mono: "result_ok E r \<Longrightarrow> E \<subseteq> E' \<Longrightarrow> result_ok E' r"
  by (cases "(E, r)" rule: result_ok.cases) auto

lemma pc_ok_mono: "pc_ok E p \<Longrightarrow> E \<subseteq> E' \<Longrightarrow> pc_ok E' p"
  by (induction E p rule: pc_ok.induct) (auto intro: result_ok_mono)

definition links_in :: "links \<Rightarrow> (string \<times> string) set \<Rightarrow> bool" where
  "links_in m E \<longleftrightarrow> (\<forall>a u. m a = Some u \<longrightarrow> (a, u) \<in> E)"

lemma links_in_le: "m \<subseteq>\<^sub>m n \<Longrightarrow> links_in n E \<Longrightarrow> links_in m E"
  by (auto simp: links_in_def dest: map_leD)

lemma links_in_mono: "links_in m E \<Longrightarrow> E \<subseteq> E' \<Longrightarrow> links_in m E'"
  by (auto simp: links_in_def)

lemma links_in_upd: "links_in m E \<Longrightarrow> (a, u) \<in> E \<Longrightarrow> links_in (m(a \<mapsto> u)) E"
  by (simp add: links_in_def)

context cached_store
begin

lemma micro_rows:
  assumes "micro rt c x p s = (p', s')" and "\<And>a. p \<noteq> Deleting a"
  shows "rows (snd s) \<subseteq>\<^sub>m rows (snd s')"
  using assms
  by (cases p) (auto split: prod.splits option.splits sum.splits if_splits
      dest: available_frame nxt.save_extends nxt.get_frame set_rows get_rows del_rows simp: down_frame)

lemma micro_ok:
  assumes "micro rt c x p s = (p', s')" and "links_in (kv (snd s)) E" and "links_in (rows (snd s)) E"
    and "pc_ok E p" and "E' = {(a, u). rows (snd s') a = Some u} \<union> E"
  shows "links_in (kv (snd s')) E' \<and> links_in (rows (snd s')) E' \<and> pc_ok E' p'"
proof -
  have E: "E \<subseteq> E'" and r: "links_in (rows (snd s')) E'" using assms(5) by (auto simp: links_in_def)
  have keep: "links_in (kv (snd s')) E'" if "kv (snd s') \<subseteq>\<^sub>m kv (snd s)"
    using links_in_mono [OF links_in_le [OF that assms(2)] E] .
  show ?thesis
  proof (cases p)
    case (Saving u a)
    obtain e w where sv: "st_Save (cache_next c) x u a (snd s) = (e, w)" by fastforce
    with assms(1) Saving have s': "snd s' = w" by (auto split: option.splits)
    show ?thesis
    proof (cases e)
      case None
      with nxt.save_ok [of x u a "snd s" w] sv have "rows w a = Some u" by simp
      with assms(1,5) Saving sv None s' r keep save_kv [OF sv] show ?thesis by auto
    next
      case (Some err)
      with assms(1) Saving sv s' r keep save_kv [OF sv] show ?thesis by auto
    qed
  next
    case (DoSet a u r')
    obtain e w where st: "rdb_Set (cache_rdb c) x a u (cache_ttl c) (snd s) = (e, w)" by fastforce
    with assms(1) DoSet have s': "snd s' = w" and p': "p' = (if e \<noteq> None then TripDone r' else Done r')"
      by auto
    from redis.set_kv [OF st] have "links_in (kv w) E'"
    proof
      assume "kv w \<subseteq>\<^sub>m kv (snd s)"
      with keep s' show ?thesis by simp
    next
      assume "kv w \<subseteq>\<^sub>m (kv (snd s))(a \<mapsto> u)"
      moreover have "links_in ((kv (snd s))(a \<mapsto> u)) E'"
        using links_in_mono [OF assms(2) E] assms(4) DoSet E by (auto intro: links_in_upd)
      ultimately show ?thesis by (rule links_in_le)
    qed
    with s' p' r assms(4) DoSet E show ?thesis by (auto intro: result_ok_mono)
  next
    case (DoLookup a)
    obtain g w where gt: "rdb_Get (cache_rdb c) x a (snd s) = (g, w)" by (metis surj_pair)
    with assms(1) DoLookup have s': "snd s' = w" by (auto split: sum.splits)
    have "pc_ok E' p'"
    proof (cases g)
      case (Inr v)
      with gt have "kv (snd s) a = Some v" by (auto intro: redis.get_hit)
      with assms(2) have "(a, v) \<in> E" unfolding links_in_def by blast
      with E have "(a, v) \<in> E'" by blast
      with assms(1) DoLookup gt Inr show ?thesis by auto
    next
      case (Inl e)
      with assms(1) DoLookup gt show ?thesis by (auto split: if_splits)
    qed
    with s' r keep redis.get_kv [OF gt] show ?thesis by simp
  next
    case (Loading a)
    obtain g w where gt: "st_Get (cache_next c) x a (snd s) = (g, w)" by (metis surj_pair)
    with assms(1) Loading have s': "snd s' = w" by (auto split: sum.splits)
    have "pc_ok E' p'"
    proof (cases g)
      case (Inr u)
      with gt have "rows (snd s) a = Some u" by (auto intro: nxt.get_ok)
      with assms(3) have "(a, u) \<in> E" unfolding links_in_def by blast
      with E have "(a, u) \<in> E'" by blast
      with assms(1) Loading gt Inr show ?thesis by auto
    next
      case (Inl e)
      with assms(1) Loading gt show ?thesis by auto
    qed
    with s' r keep load_kv [OF gt] show ?thesis by simp
  next
    case (Deleting a)
    obtain e w where dl: "st_Delete (cache_next c) x a (snd s) = (e, w)" by fastforce
    with assms(1) Deleting r keep delete_kv [OF dl] show ?thesis by (auto split: option.splits)
  next
    case (DoDel a)
    obtain e w where dl: "rdb_Del (cache_rdb c) x a (snd s) = (e, w)" by fastforce
    with assms(1) DoDel r keep redis.del_kv [OF dl] show ?thesis by auto
  next
    case (TripJoin a)
    with assms(1) have s': "s' = markRedisDown rt s" "p' = Joining a" by auto
    with down_frame [of s] r keep show ?thesis by auto
  next
    case (TripDone r')
    with assms(1) have s': "s' = markRedisDown rt s" "p' = Done r'" by auto
    with down_frame [of s] r keep assms(4) TripDone E show ?thesis by (auto intro: result_ok_mono)
  next
    case (TestSet a u r')
    obtain b s1 where av: "redisAvailable rt s = (b, s1)" by (metis surj_pair)
    with assms(1,4) TestSet r keep available_frame [OF av] E show ?thesis by (auto intro: result_ok_mono)
  next
    case (Looking a)
    obtain b s1 where av: "redisAvailable rt s = (b, s1)" by (metis surj_pair)
    with assms(1) Looking r keep available_frame [OF av] show ?thesis by auto
  next
    case (TestDel a)
    obtain b s1 where av: "redisAvailable rt s = (b, s1)" by (metis surj_pair)
    with assms(1) TestDel r keep available_frame [OF av] show ?thesis by auto
  qed (use assms(1,4) r keep E in \<open>auto intro: result_ok_mono\<close>)
qed

end

section \<open>Every run\<close>

text \<open>The alias a read asks for.\<close>

fun result_alias :: "call_result \<Rightarrow> string option" where
  "result_alias (RGet a g) = Some a"
| "result_alias _ = None"

fun alias_of :: "call_pc \<Rightarrow> string option" where
  "alias_of (Looking a) = Some a"
| "alias_of (DoLookup a) = Some a"
| "alias_of (Joining a) = Some a"
| "alias_of (Waiting a l) = Some a"
| "alias_of (Loading a) = Some a"
| "alias_of (TestSet a u r) = result_alias r"
| "alias_of (DoSet a u r) = result_alias r"
| "alias_of (TripJoin a) = Some a"
| "alias_of (TripDone r) = result_alias r"
| "alias_of (Done r) = result_alias r"
| "alias_of _ = None"

lemma micro_alias: "micro rt c x p s = (p', s') \<Longrightarrow> alias_of p' = alias_of p"
  by (cases p) (auto split: prod.splits option.splits sum.splits if_splits)

definition asks :: "'w conc \<Rightarrow> nat \<Rightarrow> string option \<Rightarrow> bool" where
  "asks st i a \<longleftrightarrow> (\<exists>x p. cn_calls st i = Some (x, p) \<and> alias_of p = a)"

definition meets :: "'w conc \<Rightarrow> bool" where
  "meets st \<longleftrightarrow> (\<forall>a l. cn_flights st a = Some l \<longrightarrow> asks st l (Some a)) \<and>
     (\<forall>i x a l. cn_calls st i = Some (x, Waiting a l) \<longrightarrow> asks st l (Some a))"

text \<open>The ways a turn can go.\<close>

lemma turn_cases:
  obtains (idle) "turn rt c i st = st"
  | (leaves) a where "turn rt c i st = st\<lparr>cn_flights := (cn_flights st)(a := None)\<rparr>"
  | (leads) x a where "cn_calls st i = Some (x, Joining a)" "cn_flights st a = None"
      "turn rt c i st = (set_call i x (Loading a) st)\<lparr>cn_flights := (cn_flights st)(a \<mapsto> i)\<rparr>"
  | (joins) x a l where "cn_calls st i = Some (x, Joining a)" "cn_flights st a = Some l"
      "turn rt c i st = set_call i x (Waiting a l) st"
  | (gets) x a l y r where "cn_calls st i = Some (x, Waiting a l)" "cn_calls st l = Some (y, Done r)"
      "turn rt c i st = set_call i x (Done r) st"
  | (steps) x p p' s' where "cn_calls st i = Some (x, p)" "micro rt c x p (cn_world st) = (p', s')"
      "\<And>a l. p' \<noteq> Waiting a l" "turn rt c i st = (set_call i x p' st)\<lparr>cn_world := s'\<rparr>"
proof -
  show thesis
  proof (cases "cn_calls st i")
    case None
    then show thesis by (intro idle) (simp add: turn_def)
  next
    case (Some xp)
    obtain x p where xp: "xp = (x, p)" by (metis surj_pair)
    obtain p' s' where m: "micro rt c x p (cn_world st) = (p', s')" by (metis surj_pair)
    show thesis
    proof (cases p)
      case (Joining a)
      with Some xp show thesis
        by (cases "cn_flights st a") (auto simp: turn_def intro: leads joins)
    next
      case (Waiting a l)
      with Some xp show thesis
        by (cases "cn_calls st l"; cases "snd (the (cn_calls st l))")
          (auto simp: turn_def intro: idle gets)
    next
      case (Done r)
      show thesis
      proof (cases r)
        case (RGet a g)
        with Some xp Done show thesis
          by (cases "cn_flights st a = Some i") (auto simp: turn_def intro: idle leaves)
      qed (use Some xp Done in \<open>auto simp: turn_def set_call_def map_upd_triv intro!: idle\<close>)
    qed (use Some xp m in \<open>auto simp: turn_def split: prod.splits option.splits sum.splits if_splits intro!: steps\<close>)
  qed
qed

lemma asks_set_call:
  "asks st j a \<Longrightarrow> cn_calls st i = Some (x, p) \<Longrightarrow> alias_of p' = alias_of p \<Longrightarrow> asks (set_call i x p' st) j a"
  by (auto simp: asks_def set_call_def)

lemma asks_rest [simp]: "asks (st\<lparr>cn_flights := f\<rparr>) = asks st" "asks (st\<lparr>cn_world := w\<rparr>) = asks st"
  by (simp_all add: asks_def fun_eq_iff)

lemma set_call_simps [simp]:
  "cn_calls (set_call i x p st) = (cn_calls st)(i \<mapsto> (x, p))"
  "cn_flights (set_call i x p st) = cn_flights st" "cn_world (set_call i x p st) = cn_world st"
  by (simp_all add: set_call_def)

text \<open>A call keeps its alias, and whoever waits, waits for a call with the same alias.\<close>

lemma turn_asks:
  assumes "meets st"
  shows "meets (turn rt c i st) \<and> (\<forall>j a. asks st j a \<longrightarrow> asks (turn rt c i st) j a)"
proof (cases rule: turn_cases [where rt = rt and c = c and i = i and st = st])
  case idle
  with assms show ?thesis by simp
next
  case (leaves a)
  with assms show ?thesis by (auto simp: meets_def)
next
  case (leads x a)
  have keep: "asks st j b \<Longrightarrow> asks (set_call i x (Loading a) st) j b" for j b
    by (erule asks_set_call [OF _ leads(1)]) simp
  have "asks (set_call i x (Loading a) st) i (Some a)" by (simp add: asks_def)
  with keep assms show ?thesis unfolding leads(3) by (auto simp: meets_def split: if_splits)
next
  case (joins x a l)
  have keep: "asks st j b \<Longrightarrow> asks (set_call i x (Waiting a l) st) j b" for j b
    by (erule asks_set_call [OF _ joins(1)]) simp
  with assms joins(2) show ?thesis unfolding joins(3) by (auto simp: meets_def split: if_splits)
next
  case (gets x a l y r)
  from assms gets(1) have "asks st l (Some a)" by (auto simp: meets_def)
  with gets(2) have al: "result_alias r = Some a" by (auto simp: asks_def)
  have keep: "asks st j b \<Longrightarrow> asks (set_call i x (Done r) st) j b" for j b
    by (erule asks_set_call [OF _ gets(1)]) (simp add: al)
  with assms show ?thesis unfolding gets(3) by (auto simp: meets_def split: if_splits)
next
  case (steps x p p' s')
  have keep: "asks st j b \<Longrightarrow> asks (set_call i x p' st) j b" for j b
    by (erule asks_set_call [OF _ steps(1)]) (rule micro_alias [OF steps(2)])
  with assms steps(3) show ?thesis unfolding steps(4) by (auto simp: meets_def split: if_splits)
qed

lemma conc_run_asks:
  assumes "conc_run rt c s0 V st"
  shows "st \<in> V \<and> meets st \<and> (\<forall>st'\<in>V. \<forall>j a. asks st' j a \<longrightarrow> asks st j a)"
  using assms
proof (induction rule: conc_run.induct)
  case (quiet st)
  then show ?case by (simp add: meets_def)
next
  case (arrives V st i p st' x)
  have keep: "asks st j a \<Longrightarrow> asks st' j a" for j a
    using arrives.hyps(2) unfolding arrives.hyps(4) by (auto simp: asks_def)
  have "\<And>a l. p \<noteq> Waiting a l" using arrives.hyps(3) by (auto simp: call_start_def)
  with arrives.IH keep have "meets st'" unfolding arrives.hyps(4) by (auto simp: meets_def split: if_splits)
  with arrives.IH keep show ?case by blast
next
  case (turns V st st' i)
  with turn_asks [of st rt c i] show ?case by blast
qed

context cached_store
begin

lemma turn_ok:
  assumes "links_in (kv (snd (cn_world st))) (ever rows V)" and "links_in (rows (snd (cn_world st))) (ever rows V)"
    and "\<And>j x p. cn_calls st j = Some (x, p) \<Longrightarrow> pc_ok (ever rows V) p"
    and "st' = turn rt c i st" and "V' = insert st' V"
  shows "links_in (kv (snd (cn_world st'))) (ever rows V') \<and> links_in (rows (snd (cn_world st'))) (ever rows V') \<and>
    (\<forall>j x p. cn_calls st' j = Some (x, p) \<longrightarrow> pc_ok (ever rows V') p)"
proof -
  have E: "ever rows V \<subseteq> ever rows V'" by (auto simp: assms(5) ever_def)
  note links = links_in_mono [OF assms(1) E] links_in_mono [OF assms(2) E]
  have calls: "cn_calls st j = Some (y, q) \<Longrightarrow> pc_ok (ever rows V') q" for j y q
    by (rule pc_ok_mono [OF assms(3) E])
  show ?thesis
  proof (cases rule: turn_cases [where rt = rt and c = c and i = i and st = st])
    case (steps x p p' s')
    then have st': "st' = (set_call i x p' st)\<lparr>cn_world := s'\<rparr>" by (simp add: assms(4))
    have "ever rows V' = {(a, u). rows (snd s') a = Some u} \<union> ever rows V"
      by (simp add: assms(5) st' ever_insert)
    from micro_ok [OF steps(2) assms(1,2) assms(3) [OF steps(1)] this] calls show ?thesis
      by (auto simp: st' split: if_splits)
  next
    case (gets x a l y r)
    then have "st' = set_call i x (Done r) st" by (simp add: assms(4))
    with calls [OF gets(2)] calls links show ?thesis by (auto split: if_splits)
  next
    case (leads x a)
    then have "st' = (set_call i x (Loading a) st)\<lparr>cn_flights := (cn_flights st)(a \<mapsto> i)\<rparr>" by (simp add: assms(4))
    with calls links show ?thesis by (auto split: if_splits)
  next
    case (joins x a l)
    then have "st' = set_call i x (Waiting a l) st" by (simp add: assms(4))
    with calls links show ?thesis by (auto split: if_splits)
  next
    case (leaves a)
    then have "st' = st\<lparr>cn_flights := (cn_flights st)(a := None)\<rparr>" by (simp add: assms(4))
    with calls links show ?thesis by auto
  next
    case idle
    then have "st' = st" by (simp add: assms(4))
    with calls links show ?thesis by auto
  qed
qed

lemma conc_run_ok:
  assumes "conc_run rt c s0 V st" and "coherent rows kv s0"
  shows "links_in (kv (snd (cn_world st))) (ever rows V) \<and> links_in (rows (snd (cn_world st))) (ever rows V) \<and>
    (\<forall>j x p. cn_calls st j = Some (x, p) \<longrightarrow> pc_ok (ever rows V) p)"
  using assms(1)
proof (induction rule: conc_run.induct)
  case (quiet st)
  then show ?case using assms(2) by (auto simp: links_in_def ever_def coherent_def dest: map_leD)
next
  case (arrives V st i p st' x)
  have E: "ever rows V \<subseteq> ever rows (insert st' V)" by (auto simp: ever_def)
  have new: "pc_ok (ever rows (insert st' V)) p" using arrives.hyps(3) by (auto simp: call_start_def split: call_pc.splits)
  have calls: "pc_ok (ever rows (insert st' V)) q" if "cn_calls st j = Some (y, q)" for j y q
    using arrives.IH that by (blast intro: pc_ok_mono [OF _ E])
  have links: "links_in (kv (snd (cn_world st))) (ever rows (insert st' V))"
    "links_in (rows (snd (cn_world st))) (ever rows (insert st' V))"
    using arrives.IH by (blast intro: links_in_mono [OF _ E])+
  have world: "cn_world st' = cn_world st" "cn_calls st' = (cn_calls st)(i \<mapsto> (x, p))" by (simp_all add: arrives.hyps(4))
  from new calls links show ?case unfolding world by (auto split: if_splits)
next
  case (turns V st st' i)
  from turns.IH show ?case by (intro turn_ok [OF _ _ _ turns.hyps(2) refl]) blast+
qed

text \<open>Without deletes the database only grows.\<close>

lemma conc_run_grows:
  assumes "conc_run rt c s0 V st" and "\<forall>st'\<in>V. \<forall>j y b. cn_calls st' j \<noteq> Some (y, Deleting b)"
  shows "\<forall>st'\<in>V. rows (snd (cn_world st')) \<subseteq>\<^sub>m rows (snd (cn_world st))"
  using assms
proof (induction rule: conc_run.induct)
  case (quiet st)
  then show ?case by simp
next
  case (arrives V st i p st' x)
  then show ?case by auto
next
  case (turns V st st' i)
  have st: "st \<in> V" using conc_run_asks [OF turns.hyps(1)] by blast
  have "rows (snd (cn_world st)) \<subseteq>\<^sub>m rows (snd (cn_world st'))"
  proof (cases rule: turn_cases [where rt = rt and c = c and i = i and st = st])
    case (steps x p p' s')
    with turns.prems st have "\<And>a. p \<noteq> Deleting a" by auto
    from micro_rows [OF steps(2) this] steps(4) turns.hyps(2) show ?thesis by simp
  qed (simp_all add: turns.hyps(2))
  with turns show ?case by (auto intro: map_le_trans)
qed

end

section \<open>Who saved an alias\<close>

text \<open>A save that the database has accepted, and the calls that began as saves of an alias.\<close>

fun saved :: "call_pc \<Rightarrow> bool" where
  "saved (TestSet a u (RSave None)) \<longleftrightarrow> True"
| "saved (DoSet a u (RSave None)) \<longleftrightarrow> True"
| "saved (TripDone (RSave None)) \<longleftrightarrow> True"
| "saved (Done (RSave None)) \<longleftrightarrow> True"
| "saved _ \<longleftrightarrow> False"

definition began_save :: "'w conc set \<Rightarrow> nat \<Rightarrow> string \<Rightarrow> string \<Rightarrow> bool" where
  "began_save V i u a \<longleftrightarrow> (\<exists>st\<in>V. \<exists>x. cn_calls st i = Some (x, Saving u a))"

lemma began_insert:
  "began_save (insert st V) i u a \<longleftrightarrow> (\<exists>x. cn_calls st i = Some (x, Saving u a)) \<or> began_save V i u a"
  by (auto simp: began_save_def)

lemma micro_no_start: "micro rt c x p s = (Saving u a, s') \<Longrightarrow> False"
  by (cases p) (auto split: prod.splits option.splits sum.splits if_splits)

lemma micro_saved:
  assumes "micro rt c x p s = (p', s')" and "saved p'"
  shows "saved p \<or> (\<exists>u a. p = Saving u a \<and> st_Save (cache_next c) x u a (snd s) = (None, snd s'))"
  using assms by (cases p) (auto split: prod.splits option.splits sum.splits if_splits elim: saved.elims)

text \<open>A turn of call \<open>i\<close> leaves the other calls alone.\<close>

lemma turn_other: "j \<noteq> i \<Longrightarrow> cn_calls (turn rt c i st) j = cn_calls st j"
  by (cases rule: turn_cases [where rt = rt and c = c and i = i and st = st]) auto

lemma turn_no_start:
  assumes "cn_calls (turn rt c i st) j = Some (x, Saving u a)"
  shows "cn_calls st j = Some (x, Saving u a)"
  using assms
  by (cases rule: turn_cases [where rt = rt and c = c and i = i and st = st])
    (auto split: if_splits dest: micro_no_start)

lemma began_turn:
  "st \<in> V \<Longrightarrow> began_save (insert (turn rt c k st) V) j v b \<Longrightarrow> began_save V j v b"
  unfolding began_insert by (auto dest!: turn_no_start) (unfold began_save_def, blast)

lemma began_once:
  assumes "conc_run rt c s0 V st" and "began_save V i u a"
  shows "\<exists>x p. cn_calls st i = Some (x, p) \<and> (\<forall>v b. p = Saving v b \<longrightarrow> v = u \<and> b = a)"
  using assms
proof (induction rule: conc_run.induct)
  case (quiet st)
  then show ?case by (simp add: began_save_def)
next
  case (arrives V st j p st' x)
  show ?case
  proof (cases "i = j")
    case True
    with arrives have "\<not> began_save V i u a" by auto
    with arrives.prems True arrives.hyps(4) show ?thesis by (auto simp: began_insert)
  next
    case False
    with arrives show ?thesis by (auto simp: began_insert)
  qed
next
  case (turns V st st' j)
  have st: "st \<in> V" using conc_run_asks [OF turns.hyps(1)] by blast
  have "began_save V i u a"
    using began_turn [OF st] turns.prems unfolding turns.hyps(2) .
  from turns.IH [OF this] obtain x p where p: "cn_calls st i = Some (x, p)" "\<forall>v b. p = Saving v b \<longrightarrow> v = u \<and> b = a"
    by blast
  have "asks st i (alias_of p)" using p(1) by (auto simp: asks_def)
  with turn_asks [of st rt c j] conc_run_asks [OF turns.hyps(1)] have "asks st' i (alias_of p)"
    unfolding turns.hyps(2) by blast
  then obtain y q where q: "cn_calls st' i = Some (y, q)" by (auto simp: asks_def)
  then show ?case using p turn_no_start [of rt c j st i] by (fastforce simp: turns.hyps(2))
qed

context cached_store
begin

lemma turn_saves:
  assumes "meets st" and "cn_calls (turn rt c i st) i = Some (x, q)" and "saved q"
  shows "(\<exists>y p. cn_calls st i = Some (y, p) \<and> saved p) \<or>
    (\<exists>y u a. cn_calls st i = Some (y, Saving u a) \<and> rows (snd (cn_world st)) a = None \<and>
       rows (snd (cn_world (turn rt c i st))) a = Some u)"
proof (cases rule: turn_cases [where rt = rt and c = c and i = i and st = st])
  case (gets y a l z r)
  from assms(1) gets(1) have "asks st l (Some a)" by (auto simp: meets_def)
  with gets(2) have "result_alias r = Some a" by (auto simp: asks_def)
  with assms(2,3) gets(3) show ?thesis by (cases r) auto
next
  case (steps y p p' s')
  from assms(2,3) steps(4) have "saved p'" by simp
  from micro_saved [OF steps(2) this] show ?thesis
  proof
    assume "\<exists>u a. p = Saving u a \<and> st_Save (cache_next c) y u a (snd (cn_world st)) = (None, snd s')"
    then obtain u a where p: "p = Saving u a" "st_Save (cache_next c) y u a (snd (cn_world st)) = (None, snd s')" by blast
    from nxt.save_ok [OF p(2)] p(1) steps(1,4) show ?thesis by auto
  qed (use steps(1) in auto)
qed (use assms(2,3) in auto)

text \<open>Without deletes, what a call has saved stays, and no other call has saved the alias.\<close>

lemma saves_exclude:
  assumes "conc_run rt c s0 V st" and "\<forall>st'\<in>V. \<forall>j y b. cn_calls st' j \<noteq> Some (y, Deleting b)"
    and "began_save V i u a" and "cn_calls st i = Some (x, p)" and "saved p"
  shows "rows (snd (cn_world st)) a = Some u \<and>
    (\<forall>j v y q. began_save V j v a \<and> cn_calls st j = Some (y, q) \<and> saved q \<longrightarrow> j = i)"
  using assms
proof (induction arbitrary: i u a x p rule: conc_run.induct)
  case (quiet st)
  then show ?case by simp
next
  case (arrives V st k r st' z)
  have new: "\<not> saved q" if "cn_calls st' k = Some (y, q)" for y q
    using that arrives.hyps(3) by (auto simp: arrives.hyps(4) call_start_def split: call_pc.splits)
  have old: "began_save V j v b \<and> cn_calls st j = Some (y, q)"
    if "began_save (insert st' V) j v b" "cn_calls st' j = Some (y, q)" "saved q" for j v b y q
  proof -
    have "j \<noteq> k" using new that(2,3) by blast
    with that show ?thesis by (auto simp: began_insert arrives.hyps(4))
  qed
  from old [OF arrives.prems(2-4)] arrives.IH [of i u a x p] arrives.prems(1,4)
  have IH: "rows (snd (cn_world st)) a = Some u \<and>
    (\<forall>j v y q. began_save V j v a \<and> cn_calls st j = Some (y, q) \<and> saved q \<longrightarrow> j = i)" by blast
  have "cn_world st' = cn_world st" by (simp add: arrives.hyps(4))
  with IH old show ?case by metis
next
  case (turns V st st' k)
  have st: "st \<in> V" and meets: "meets st" using conc_run_asks [OF turns.hyps(1)] by blast+
  have grows: "rows (snd (cn_world st)) \<subseteq>\<^sub>m rows (snd (cn_world st'))"
    using conc_run_grows [OF conc_run.turns [OF turns.hyps(1,2)] turns.prems(1)] st by blast
  have began: "began_save V j v b" if "began_save (insert st' V) j v b" for j v b
    using began_turn [OF st] that unfolding turns.hyps(2) .
  have IH: "rows (snd (cn_world st)) b = Some v \<and>
      (\<forall>j v y q. began_save V j v b \<and> cn_calls st j = Some (y, q) \<and> saved q \<longrightarrow> j = i)"
    if "began_save V i v b" "cn_calls st i = Some (y, q)" "saved q" for i v b y q
    using turns.IH [OF _ that] turns.prems(1) by blast
  text \<open>A call that has saved had saved before, or saves now.\<close>
  have split: "(\<exists>y q. cn_calls st j = Some (y, q) \<and> saved q) \<or>
      j = k \<and> rows (snd (cn_world st)) b = None \<and> rows (snd (cn_world st')) b = Some v"
    if j: "began_save V j v b" "cn_calls st' j = Some (y, q)" "saved q" for j v b y q
  proof (cases "j = k")
    case True
    from turn_saves [OF meets j(2) [unfolded turns.hyps(2) True] j(3)]
      began_once [OF turns.hyps(1) j(1)] True show ?thesis by (auto simp: turns.hyps(2))
  next
    case False
    with j show ?thesis by (auto simp: turns.hyps(2) turn_other)
  qed
  note bi = began [OF turns.prems(2)]
  have rowi: "rows (snd (cn_world st')) a = Some u"
    using split [OF bi turns.prems(3,4)] IH [OF bi] grows by (auto dest: map_leD)
  moreover have "j = i" if j: "began_save V j v a" "cn_calls st' j = Some (y, q)" "saved q" for j v y q
    using split [OF bi turns.prems(3,4)] split [OF j]
  proof (elim disjE exE conjE)
    fix y q y' q'
    assume "cn_calls st i = Some (y, q)" "saved q" "cn_calls st j = Some (y', q')" "saved q'"
    with IH [OF bi] j(1) show ?thesis by blast
  next
    fix y q
    assume "cn_calls st i = Some (y, q)" "saved q" "rows (snd (cn_world st)) a = None"
    with IH [OF bi] show ?thesis by fastforce
  next
    fix y q
    assume "cn_calls st j = Some (y, q)" "saved q" "rows (snd (cn_world st)) a = None"
    with IH [OF j(1)] show ?thesis by fastforce
  qed simp
  ultimately show ?case using began by blast
qed

end

end
