(* ===== verification/Interleaving_Properties.thy ===== *)
theory Interleaving_Properties
  imports Interleaving
begin

text \<open>
  The properties of the cache under interleaving: one call alone is the operation, what reads
  return was stored, and the race of a read with a delete.
\<close>

section \<open>Evaluation\<close>

datatype script_line = Arrive nat ctx call_pc | Turn nat

definition run_line :: "'w runtime \<Rightarrow> 'w Cache \<Rightarrow> script_line \<Rightarrow> 'w conc \<Rightarrow> 'w conc" where
  "run_line rt c ln st =
     (case ln of
        Turn i \<Rightarrow> turn rt c i st
      | Arrive i x p \<Rightarrow> if cn_calls st i = None \<and> call_start p then set_call i x p st else st)"

lemma run_line_simps [simp]:
  "run_line rt c (Turn i) st = turn rt c i st"
  "run_line rt c (Arrive i x p) st = (if cn_calls st i = None \<and> call_start p then set_call i x p st else st)"
  by (simp_all add: run_line_def)

definition at_rest :: "'w cached \<Rightarrow> 'w conc" where
  "at_rest s0 = \<lparr>cn_calls = Map.empty, cn_flights = Map.empty, cn_world = s0\<rparr>"

text \<open>A script is a run through the states it comes to.\<close>

lemma script_run_through:
  "conc_run rt c s0 ((\<lambda>n. fold (run_line rt c) (take n lns) (at_rest s0)) ` {..length lns})
     (fold (run_line rt c) lns (at_rest s0))"
proof (induction lns rule: rev_induct)
  case Nil
  show ?case by (auto simp: at_rest_def intro: conc_run.quiet)
next
  case (snoc ln lns)
  let ?st = "\<lambda>lns. fold (run_line rt c) lns (at_rest s0)"
  let ?V = "(\<lambda>n. ?st (take n lns)) ` {..length lns}"
  have "(\<lambda>n. ?st (take n (lns @ [ln]))) ` {..length (lns @ [ln])} = insert (?st (lns @ [ln])) ?V"
    by (simp add: atMost_Suc)
  moreover have "conc_run rt c s0 (insert (run_line rt c ln (?st lns)) ?V) (run_line rt c ln (?st lns))"
  proof (cases ln)
    case (Turn i)
    with conc_run.turns [OF snoc refl, of i] show ?thesis by simp
  next
    case (Arrive i x p)
    have "?st lns \<in> ?V" by (rule image_eqI [of _ _ "length lns"]) auto
    with Arrive snoc conc_run.arrives [OF snoc _ _ refl, of i p x] show ?thesis by (auto simp: insert_absorb)
  qed
  ultimately show ?case by simp
qed

lemma script_run: "\<exists>V. conc_run rt c s0 V (fold (run_line rt c) lns (at_rest s0))"
  using script_run_through by blast

text \<open>
  A link whose cache entry is gone is read while it is deleted: the read loads the row, the delete
  removes the row and the entry, and then the read fills the cache.
\<close>

definition sale_stored :: "backend cached" where
  "sale_stored = (0, empty_backend\<lparr>be_table := [''sale'' \<mapsto> (0, ''https://old.example'')], be_seq := 1\<rparr>)"

definition race_script :: "script_line list" where
  "race_script =
     [Arrive 1 Background (Looking ''sale''), Turn 1, Turn 1, Turn 1, Turn 1,
      Arrive 2 Background (Deleting ''sale''), Turn 2, Turn 2, Turn 2,
      Turn 1, Turn 1, Turn 1]"

definition raced :: "backend conc" where
  "raced = fold (run_line be_runtime (be_cache (60 * Minute))) race_script (at_rest sale_stored)"

lemma raced_calls:
  "cn_calls raced 1 = Some (Background, Done (RGet ''sale'' (Inr ''https://old.example'')))"
  "cn_calls raced 2 = Some (Background, Done (RDelete None))"
  "be_rows (snd (cn_world raced)) ''sale'' = None" "fst (cn_world raced) = 0"
  "fst (Cache_Get be_runtime (be_cache (60 * Minute)) Background ''sale'' (cn_world raced)) = Inr ''https://old.example''"
  by (simp_all add: raced_def race_script_def run_line_def at_rest_def turn_def call_start_def sale_stored_def
      set_call_def cache_eval be_rows_def)

text \<open>
  The load that readers share runs with the context of the first of them. Here the database
  answers, as it does, with the error of a context that is done; the first reader's deadline has
  passed, the second reader has none, and still it gets the first one's error, although a read of
  its own would have succeeded.
\<close>

definition strict_cache :: "backend Cache" where
  "strict_cache =
     (let c = be_cache (60 * Minute); next = cache_next c
      in c\<lparr>cache_next := next\<lparr>st_Get := (\<lambda>x a w. case ctx_Err be_runtime x w of
           (Some e, w1) \<Rightarrow> (Inl e, w1)
         | (None, w1) \<Rightarrow> st_Get next x a w1)\<rparr>\<rparr>)"

definition late :: ctx where
  "late = \<lparr>ctx_deadline = Some 0, ctx_values = []\<rparr>"

definition share_script :: "script_line list" where
  "share_script =
     [Arrive 1 late (Looking ''sale''), Turn 1, Turn 1, Turn 1,
      Arrive 2 Background (Looking ''sale''), Turn 2, Turn 2, Turn 2,
      Turn 1, Turn 2]"

lemma leader_context_fails_waiters:
  "\<exists>V st. conc_run be_runtime strict_cache sale_stored V st \<and>
     cn_calls st = [1 \<mapsto> (late, Done (RGet ''sale'' (Inl (Sentinel ContextDeadlineExceeded)))),
                    2 \<mapsto> (Background, Done (RGet ''sale'' (Inl (Sentinel ContextDeadlineExceeded))))] \<and>
     fst (Cache_Get be_runtime strict_cache Background ''sale'' (cn_world st)) = Inr ''https://old.example''"
proof -
  define st where "st = fold (run_line be_runtime strict_cache) share_script (at_rest sale_stored)"
  obtain V where V: "conc_run be_runtime strict_cache sale_stored V st"
    unfolding st_def using script_run by blast
  have "cn_calls st = [1 \<mapsto> (late, Done (RGet ''sale'' (Inl (Sentinel ContextDeadlineExceeded)))),
      2 \<mapsto> (Background, Done (RGet ''sale'' (Inl (Sentinel ContextDeadlineExceeded))))]"
    and "fst (Cache_Get be_runtime strict_cache Background ''sale'' (cn_world st)) = Inr ''https://old.example''"
    by (simp_all add: st_def share_script_def strict_cache_def late_def Background_def be_runtime_def fun_eq_iff
        at_rest_def turn_def call_start_def sale_stored_def set_call_def cache_eval)
  with V show ?thesis by blast
qed

section \<open>Properties\<close>

text \<open>
  The two models of the cache agree, the steps of this theory and the operations of
  \<open>Redis_Cache\<close>: a call that runs on its own, with no other call in flight,
  comes after at most eight of its steps to the result and the state that \<open>Save\<close>, \<open>Get\<close> and
  \<open>Delete\<close> of the cache come to.
\<close>

lemma steps_are_the_operations:
  assumes "\<And>k f. group_Do c k f = f"
  shows "solo rt c x 8 (Saving u a) s = (case Cache_Save rt c x u a s of (r, s') \<Rightarrow> (Done (RSave r), s')) \<and>
         solo rt c x 8 (Looking a) s = (case Cache_Get rt c x a s of (g, s') \<Rightarrow> (Done (RGet a g), s')) \<and>
         solo rt c x 8 (Deleting a) s = (case Cache_Delete rt c x a s of (r, s') \<Rightarrow> (Done (RDelete r), s'))"
proof (intro conjI)
  note eight = eval_nat_numeral solo.simps
  show "solo rt c x 8 (Saving u a) s = (case Cache_Save rt c x u a s of (r, s') \<Rightarrow> (Done (RSave r), s'))"
    by (simp add: eight Cache_Save_def split: prod.splits option.splits)
  show "solo rt c x 8 (Deleting a) s = (case Cache_Delete rt c x a s of (r, s') \<Rightarrow> (Done (RDelete r), s'))"
    by (simp add: eight Cache_Delete_def split: prod.splits option.splits)
  show "solo rt c x 8 (Looking a) s = (case Cache_Get rt c x a s of (g, s') \<Rightarrow> (Done (RGet a g), s'))"
    by (simp add: eight Cache_Get_def cached_lookup_def load_and_fill_def assms split: prod.splits sum.splits)
qed

text \<open>
  C6. Any number of reads, saves and deletes at once, in any interleaving of their steps, with
  reads of one alias sharing a call in flight, and whatever the servers answer: a url that a read
  of an alias returns was stored under that alias at some moment of the run. And as long as no
  delete is called, it still is, and every cache entry agrees with the database.
\<close>

theorem concurrent_reads_were_stored:
  assumes "cached_store c rows rt kv" and "coherent rows kv s0" and "conc_run rt c s0 V st"
    and "cn_calls st i = Some (x, Done (RGet a (Inr u)))"
  shows "(\<exists>st'\<in>V. rows (snd (cn_world st')) a = Some u) \<and>
         (\<forall>st'\<in>V. \<forall>y b. cn_calls st' i = Some (y, Looking b) \<longrightarrow> b = a) \<and>
         ((\<forall>st'\<in>V. \<forall>j y b. cn_calls st' j \<noteq> Some (y, Deleting b)) \<longrightarrow>
            rows (snd (cn_world st)) a = Some u \<and> coherent rows kv (cn_world st))"
proof -
  note ok = cached_store.conc_run_ok [OF assms(1,3,2)]
  note asked = conc_run_asks [OF assms(3)]
  from ok assms(4) have "(a, u) \<in> ever rows V" by fastforce
  then have stored: "\<exists>st'\<in>V. rows (snd (cn_world st')) a = Some u" by (simp add: ever_def)
  have "b = a" if "st' \<in> V" and "cn_calls st' i = Some (y, Looking b)" for st' y b
  proof -
    from that(2) have "asks st' i (Some b)" by (simp add: asks_def)
    with asked that(1) have "asks st i (Some b)" by blast
    with assms(4) show "b = a" by (simp add: asks_def)
  qed
  moreover have "rows (snd (cn_world st)) a = Some u \<and> coherent rows kv (cn_world st)"
    if "\<forall>st'\<in>V. \<forall>j y b. cn_calls st' j \<noteq> Some (y, Deleting b)"
  proof -
    note grows = cached_store.conc_run_grows [OF assms(1,3) that]
    from stored grows have "rows (snd (cn_world st)) a = Some u" by (auto dest: map_leD)
    moreover have "rows (snd (cn_world st)) b = Some v" if "kv (snd (cn_world st)) b = Some v" for b v
    proof -
      from ok that have "(b, v) \<in> ever rows V" by (auto simp: links_in_def)
      with grows show ?thesis by (auto simp: ever_def dest: map_leD)
    qed
    ultimately show ?thesis by (auto simp: coherent_def map_le_def)
  qed
  ultimately show ?thesis using stored by blast
qed

theorem concurrent_reads_were_stored_witness:
  "\<exists>V. conc_run be_runtime (be_cache (60 * Minute)) sale_stored V raced \<and>
     (\<exists>st'\<in>V. be_rows (snd (cn_world st')) ''sale'' = Some ''https://old.example'')"
proof -
  obtain V where V: "conc_run be_runtime (be_cache (60 * Minute)) sale_stored V raced"
    unfolding raced_def using script_run by blast
  have "coherent be_rows be_kv sale_stored"
    by (simp add: coherent_def sale_stored_def empty_backend_def be_kv_def map_le_def)
  from concurrent_reads_were_stored [OF be.cached_store_axioms this V raced_calls(1)] V show ?thesis by blast
qed

text \<open>
  C8. An alias is given to one client only: in any interleaving of reads and saves in which nothing is
  deleted, of all the saves of one alias that are under way or over at most one has succeeded, and
  its url is what the database holds under the alias.
\<close>

theorem one_save_succeeds:
  assumes "cached_store c rows rt kv" and "conc_run rt c s0 V st"
    and "\<forall>st'\<in>V. \<forall>j y b. cn_calls st' j \<noteq> Some (y, Deleting b)"
    and "st1 \<in> V" and "cn_calls st1 i = Some (x1, Saving u a)" and "cn_calls st i = Some (y1, Done (RSave None))"
    and "st2 \<in> V" and "cn_calls st2 j = Some (x2, Saving v a)" and "cn_calls st j = Some (y2, Done (RSave None))"
  shows "j = i \<and> rows (snd (cn_world st)) a = Some u"
proof -
  have "began_save V i u a" "began_save V j v a" using assms(4,5,7,8) by (auto simp: began_save_def)
  from cached_store.saves_exclude [OF assms(1-3) this(1) assms(6)] this(2) assms(9) show ?thesis by auto
qed

text \<open>Two saves of one alias at once: the second one is refused.\<close>

definition save_script :: "script_line list" where
  "save_script =
     [Arrive 1 Background (Saving ''https://a.example'' ''promo''),
      Arrive 2 Background (Saving ''https://b.example'' ''promo''),
      Turn 2, Turn 1, Turn 2, Turn 2]"

definition saved_twice :: "backend conc" where
  "saved_twice = fold (run_line be_runtime (be_cache (60 * Minute))) save_script (at_rest sale_stored)"

lemma saved_twice_run:
  "\<exists>V. conc_run be_runtime (be_cache (60 * Minute)) sale_stored V saved_twice \<and>
     (\<forall>st'\<in>V. \<forall>j y b. cn_calls st' j \<noteq> Some (y, Deleting b)) \<and>
     (\<exists>st1\<in>V. cn_calls st1 1 = Some (Background, Saving ''https://a.example'' ''promo'') \<and>
        cn_calls st1 2 = Some (Background, Saving ''https://b.example'' ''promo''))"
proof -
  let ?st = "\<lambda>n. fold (run_line be_runtime (be_cache (60 * Minute))) (take n save_script) (at_rest sale_stored)"
  have "conc_run be_runtime (be_cache (60 * Minute)) sale_stored (?st ` {..length save_script}) saved_twice"
    unfolding saved_twice_def by (rule script_run_through)
  moreover have "cn_calls (?st n) j \<noteq> Some (y, Deleting b)" if "n \<le> length save_script" for n j y b
  proof -
    from that have "n \<in> {0, 1, 2, 3, 4, 5, 6}" by (auto simp: save_script_def)
    then show ?thesis
      by (auto simp: save_script_def at_rest_def turn_def call_start_def sale_stored_def set_call_def cache_eval
          split: if_splits)
  qed
  moreover have "cn_calls (?st 2) 1 = Some (Background, Saving ''https://a.example'' ''promo'') \<and>
      cn_calls (?st 2) 2 = Some (Background, Saving ''https://b.example'' ''promo'')"
    by (simp add: save_script_def at_rest_def call_start_def)
  moreover have "2 \<in> {..length save_script}" by (simp add: save_script_def)
  ultimately show ?thesis by blast
qed

theorem one_save_succeeds_witness:
  "\<exists>e. cn_calls saved_twice 1 = Some (Background, Done (RSave (Some e))) \<and> errors_Is e ErrURLExist \<and>
       cn_calls saved_twice 2 = Some (Background, Done (RSave None)) \<and>
       be_rows (snd (cn_world saved_twice)) ''promo'' = Some ''https://b.example''"
proof -
  have two: "cn_calls saved_twice 2 = Some (Background, Done (RSave None))"
    and one: "\<exists>e. cn_calls saved_twice 1 = Some (Background, Done (RSave (Some e))) \<and> errors_Is e ErrURLExist"
    by (simp_all add: saved_twice_def save_script_def at_rest_def turn_def call_start_def sale_stored_def
        set_call_def cache_eval)
  from saved_twice_run obtain V st1 where V: "conc_run be_runtime (be_cache (60 * Minute)) sale_stored V saved_twice"
    "\<forall>st'\<in>V. \<forall>j y b. cn_calls st' j \<noteq> Some (y, Deleting b)" "st1 \<in> V"
    "cn_calls st1 2 = Some (Background, Saving ''https://b.example'' ''promo'')" by blast
  from one_save_succeeds [OF be.cached_store_axioms V(1-4) two V(3,4) two] one two show ?thesis by simp
qed

text \<open>
  C7. A delete that runs while the alias is being read can be undone in the cache: in a run in
  which Redis never fails and the breaker never trips, the read has loaded the row, the delete
  removes the row and the cache entry and reports success, and then the read fills the cache. All
  calls have returned, the link is not in the database, and the next read still resolves it.
\<close>

theorem delete_races_with_read:
  "\<exists>V st. conc_run be_runtime (be_cache (60 * Minute)) sale_stored V st \<and>
     cn_calls st = [1 \<mapsto> (Background, Done (RGet ''sale'' (Inr ''https://old.example''))),
                    2 \<mapsto> (Background, Done (RDelete None))] \<and>
     fst (cn_world st) = 0 \<and> be_rows (snd (cn_world st)) ''sale'' = None \<and>
     fst (Cache_Get be_runtime (be_cache (60 * Minute)) Background ''sale'' (cn_world st)) =
       Inr ''https://old.example''"
proof -
  obtain V where V: "conc_run be_runtime (be_cache (60 * Minute)) sale_stored V raced"
    unfolding raced_def using script_run by blast
  have "cn_calls raced = [1 \<mapsto> (Background, Done (RGet ''sale'' (Inr ''https://old.example''))),
      2 \<mapsto> (Background, Done (RDelete None))]"
    by (simp add: fun_eq_iff raced_def race_script_def at_rest_def turn_def call_start_def sale_stored_def
        set_call_def cache_eval)
  with V raced_calls show ?thesis by blast
qed

end
