(* ===== verification/Limiter_Threads.thy ===== *)
theory Limiter_Threads
  imports Ratelimit
begin

text \<open>
  The limiter under concurrent requests: \<open>allow\<close> and \<open>sweep\<close> of
  \<open>internal/transport/http/middleware/ratelimit/ratelimit.go\<close> statement by statement, as threads
  that share the buckets and the mutex. Any interleaving is a sequence of calls and passes in the
  order in which they hold the mutex, which is what \<open>limiter_run\<close> runs, and a thread that wants
  the mutex can always get it.
\<close>

section \<open>Threads\<close>

text \<open>
  Where a thread is. A call of \<open>allow\<close>: before \<open>Lock\<close>, before \<open>time.Now\<close>, before the lookup,
  before the refill, before \<open>lastSeen\<close> is set, before the test, before the deferred \<open>Unlock\<close>, and
  returned. The sweeper: waiting for a tick, before \<open>Lock\<close> with the cutoff's clock reading, and in
  the loop with the keys still to come.
\<close>

datatype limiter_pc =
    Calling string | Holding string | Lookup string time | Refill string time | Stamp string time
  | Take string time | Unlocking string time bool | Returned string bool
  | Sleeping | Expired time | Ranging time "string set"

record limiter_conc =
  lc_clock :: time
  lc_holder :: "nat option"
  lc_limiter :: Limiter
  lc_threads :: "nat \<rightharpoonup> limiter_pc"

text \<open>One statement of a thread that holds the mutex; the loop of the sweeper visits \<open>pick\<close>.\<close>

definition set_bucket :: "string \<Rightarrow> bucket \<Rightarrow> Limiter \<Rightarrow> Limiter" where
  "set_bucket k b l = l\<lparr>buckets := (buckets l)(k \<mapsto> b)\<rparr>"

fun section_step :: "(rat \<Rightarrow> rat) \<Rightarrow> time \<Rightarrow> string \<Rightarrow> limiter_pc \<Rightarrow> Limiter \<Rightarrow> limiter_pc \<times> Limiter" where
  "section_step fl now pick (Holding k) l = (Lookup k now, l)"
| "section_step fl _ pick (Lookup k now) l =
     (case buckets l k of
        Some b \<Rightarrow> (Refill k now, l)
      | None \<Rightarrow> (Refill k now, set_bucket k \<lparr>tokens = burst l, lastSeen = now\<rparr> l))"
| "section_step fl _ pick (Refill k now) l =
     (case buckets l k of
        Some b \<Rightarrow>
          (let elapsed = Seconds fl (time_Sub now (lastSeen b))
           in (Stamp k now, set_bucket k (b\<lparr>tokens := min (burst l) (fl (tokens b + fl (elapsed * rate l)))\<rparr>) l))
      | None \<Rightarrow> (Refill k now, l))"
| "section_step fl _ pick (Stamp k now) l =
     (case buckets l k of
        Some b \<Rightarrow> (Take k now, set_bucket k (b\<lparr>lastSeen := now\<rparr>) l)
      | None \<Rightarrow> (Stamp k now, l))"
| "section_step fl _ pick (Take k now) l =
     (case buckets l k of
        Some b \<Rightarrow>
          (if tokens b < 1 then (Unlocking k now False, l)
           else (Unlocking k now True, set_bucket k (b\<lparr>tokens := fl (tokens b - 1)\<rparr>) l))
      | None \<Rightarrow> (Take k now, l))"
| "section_step fl _ pick (Ranging tau todo) l =
     (if pick \<notin> todo then (Ranging tau todo, l)
      else case buckets l pick of
        Some b \<Rightarrow>
          (let cutoff = tau + (- lim_ttl l)
           in (Ranging tau (todo - {pick}),
               if lastSeen b < cutoff then l\<lparr>buckets := (buckets l)(pick := None)\<rparr> else l))
      | None \<Rightarrow> (Ranging tau (todo - {pick}), l))"
| "section_step fl _ pick p l = (p, l)"

text \<open>One turn of thread \<open>i\<close>; a thread that waits for the mutex or for a tick may pass it.\<close>

definition set_thread :: "nat \<Rightarrow> limiter_pc \<Rightarrow> limiter_conc \<Rightarrow> limiter_conc" where
  "set_thread i p st = st\<lparr>lc_threads := (lc_threads st)(i \<mapsto> p)\<rparr>"

definition lock_with :: "nat \<Rightarrow> limiter_pc \<Rightarrow> limiter_conc \<Rightarrow> limiter_conc" where
  "lock_with i p st =
     (if lc_holder st = None then (set_thread i p st)\<lparr>lc_holder := Some i\<rparr> else st)"

definition unlock_with :: "nat \<Rightarrow> limiter_pc \<Rightarrow> limiter_conc \<Rightarrow> limiter_conc" where
  "unlock_with i p st = (set_thread i p st)\<lparr>lc_holder := None\<rparr>"

definition thread_turn :: "(rat \<Rightarrow> rat) \<Rightarrow> nat \<Rightarrow> string \<Rightarrow> limiter_conc \<Rightarrow> limiter_conc" where
  "thread_turn fl i pick st =
     (case lc_threads st i of
        None \<Rightarrow> st
      | Some (Calling k) \<Rightarrow> lock_with i (Holding k) st
      | Some (Unlocking k now ok) \<Rightarrow> unlock_with i (Returned k ok) st
      | Some (Returned k ok) \<Rightarrow> st
      | Some Sleeping \<Rightarrow> set_thread i (Expired (lc_clock st)) st
      | Some (Expired tau) \<Rightarrow> lock_with i (Ranging tau (dom (buckets (lc_limiter st)))) st
      | Some (Ranging tau todo) \<Rightarrow>
          (if todo = {} then unlock_with i Sleeping st
           else case section_step fl (lc_clock st) pick (Ranging tau todo) (lc_limiter st) of
             (p, l) \<Rightarrow> (set_thread i p st)\<lparr>lc_limiter := l\<rparr>)
      | Some p \<Rightarrow>
          (case section_step fl (lc_clock st) pick p (lc_limiter st) of
             (p', l) \<Rightarrow> (set_thread i p' st)\<lparr>lc_limiter := l\<rparr>))"

text \<open>
  The runs of a new limiter: \<open>New\<close> starts the sweeper, calls arrive, threads take turns and time
  passes.
\<close>

definition limiter_start :: "Limiter \<Rightarrow> time \<Rightarrow> limiter_conc" where
  "limiter_start l t = \<lparr>lc_clock = t, lc_holder = None, lc_limiter = l, lc_threads = [0 \<mapsto> Sleeping]\<rparr>"

inductive limiter_steps :: "(rat \<Rightarrow> rat) \<Rightarrow> limiter_conc \<Rightarrow> limiter_conc \<Rightarrow> bool"
  for fl :: "rat \<Rightarrow> rat" and s0 :: limiter_conc where
  stays: "limiter_steps fl s0 s0"
| passes: "limiter_steps fl s0 st \<Longrightarrow> lc_clock st \<le> t \<Longrightarrow> st' = st\<lparr>lc_clock := t\<rparr> \<Longrightarrow> limiter_steps fl s0 st'"
| arrives: "limiter_steps fl s0 st \<Longrightarrow> lc_threads st i = None \<Longrightarrow> st' = set_thread i (Calling k) st \<Longrightarrow>
    limiter_steps fl s0 st'"
| moves: "limiter_steps fl s0 st \<Longrightarrow> st' = thread_turn fl i pick st \<Longrightarrow> limiter_steps fl s0 st'"

section \<open>What the holder has done so far\<close>

fun in_section :: "limiter_pc \<Rightarrow> bool" where
  "in_section (Calling k) = False"
| "in_section (Returned k ok) = False"
| "in_section Sleeping = False"
| "in_section (Expired tau) = False"
| "in_section _ = True"

text \<open>
  The limiter in the middle of a section that began with \<open>l\<close>, and what the thread carries: the
  event that the section is, and its answer.
\<close>

fun midway :: "(rat \<Rightarrow> rat) \<Rightarrow> Limiter \<Rightarrow> limiter_pc \<Rightarrow> Limiter" where
  "midway fl l (Refill k now) = set_bucket k (bucket_of now k l) l"
| "midway fl l (Stamp k now) = set_bucket k ((bucket_of now k l)\<lparr>tokens := refilled fl now k l\<rparr>) l"
| "midway fl l (Take k now) = set_bucket k \<lparr>tokens = refilled fl now k l, lastSeen = now\<rparr> l"
| "midway fl l (Unlocking k now ok) = snd (allow fl now k l)"
| "midway fl l (Ranging tau todo) =
     l\<lparr>buckets := (\<lambda>k. if k \<in> todo then buckets l k else buckets (sweep_tick tau l) k)\<rparr>"
| "midway fl l _ = l"

fun carries :: "(rat \<Rightarrow> rat) \<Rightarrow> time \<Rightarrow> time \<Rightarrow> Limiter \<Rightarrow> limiter_pc \<Rightarrow> bool" where
  "carries fl t c l (Lookup k now) \<longleftrightarrow> t \<le> now \<and> now \<le> c"
| "carries fl t c l (Refill k now) \<longleftrightarrow> t \<le> now \<and> now \<le> c"
| "carries fl t c l (Stamp k now) \<longleftrightarrow> t \<le> now \<and> now \<le> c"
| "carries fl t c l (Take k now) \<longleftrightarrow> t \<le> now \<and> now \<le> c"
| "carries fl t c l (Unlocking k now ok) \<longleftrightarrow> t \<le> now \<and> now \<le> c \<and> ok = fst (allow fl now k l)"
| "carries fl t c l (Ranging tau todo) \<longleftrightarrow> tau \<le> c \<and> todo \<subseteq> dom (buckets l)"
| "carries fl t c l (Expired tau) \<longleftrightarrow> tau \<le> c"
| "carries fl t c l _ \<longleftrightarrow> True"

lemma bucket_eq_iff: "(b :: bucket) = b' \<longleftrightarrow> tokens b = tokens b' \<and> lastSeen b = lastSeen b'"
  by (cases b; cases b') simp

lemma set_bucket_simps [simp]:
  "rate (set_bucket k b l) = rate l" "burst (set_bucket k b l) = burst l" "lim_ttl (set_bucket k b l) = lim_ttl l"
  "buckets (set_bucket k b l) = (buckets l)(k \<mapsto> b)" "set_bucket k b' (set_bucket k b l) = set_bucket k b' l"
  by (simp_all add: set_bucket_def)

lemma set_bucket_same: "buckets l k = Some b \<Longrightarrow> set_bucket k b l = l"
  by (simp add: set_bucket_def fun_upd_idem)

lemma allow_set_bucket:
  "snd (allow fl now k l) = set_bucket k
     \<lparr>tokens = if refilled fl now k l < 1 then refilled fl now k l else fl (refilled fl now k l - 1), lastSeen = now\<rparr> l"
  "fst (allow fl now k l) \<longleftrightarrow> 1 \<le> refilled fl now k l"
  by (simp_all add: allow_refilled set_bucket_def)

lemma section_step_midway:
  assumes "section_step fl c pick p (midway fl l p) = (p', l')" and "in_section p" and "carries fl t c l p"
    and "t \<le> c" and "\<And>k now ok. p \<noteq> Unlocking k now ok"
  shows "in_section p' \<and> l' = midway fl l p' \<and> carries fl t c l p'"
proof (cases p)
  case (Lookup k now)
  with assms show ?thesis by (auto simp: bucket_of_def set_bucket_same split: option.splits)
next
  case (Refill k now)
  with assms show ?thesis by (auto simp: refilled_def Let_def)
next
  case (Stamp k now)
  with assms show ?thesis by (auto simp: bucket_eq_iff intro!: arg_cong [of _ _ "\<lambda>b. set_bucket k b l"])
next
  case (Take k now)
  with assms show ?thesis by (auto simp: allow_set_bucket split: if_splits)
next
  case (Ranging tau todo)
  with assms show ?thesis
    by (auto simp: sweep_tick_def Let_def fun_eq_iff split: option.splits if_splits)
qed (use assms in auto)

section \<open>The order of the sections\<close>

text \<open>
  \<open>es\<close> are the sections that are over, in the order in which they held the mutex, \<open>ans\<close> the answers
  of the calls among them with their threads, and \<open>l\<close> the limiter that they left.
\<close>

definition sections ::
  "(rat \<Rightarrow> rat) \<Rightarrow> Limiter \<Rightarrow> time \<Rightarrow> time \<Rightarrow> limiter_event list \<Rightarrow> (nat \<times> string \<times> bool) list \<Rightarrow> Limiter \<Rightarrow> bool" where
  "sections fl l0 t0 c es ans l \<longleftrightarrow>
     in_order t0 es \<and> limiter_run fl es l0 = (map snd ans, l) \<and>
     (\<forall>e \<in> set es. event_time e \<le> c) \<and> end_time t0 es \<le> c"

definition answered :: "(nat \<rightharpoonup> limiter_pc) \<Rightarrow> (nat \<times> string \<times> bool) list \<Rightarrow> bool" where
  "answered ts ans \<longleftrightarrow> distinct (map fst ans) \<and>
     (\<forall>i k ok. ts i = Some (Returned k ok) \<longleftrightarrow> (i, k, ok) \<in> set ans)"

definition threads_ok ::
  "(rat \<Rightarrow> rat) \<Rightarrow> time \<Rightarrow> time \<Rightarrow> Limiter \<Rightarrow> nat option \<Rightarrow> (nat \<rightharpoonup> limiter_pc) \<Rightarrow> bool" where
  "threads_ok fl t c l h ts \<longleftrightarrow>
     (\<forall>i p. ts i = Some p \<longrightarrow> carries fl t c l p \<and> (in_section p \<longleftrightarrow> h = Some i))"

definition held :: "(rat \<Rightarrow> rat) \<Rightarrow> Limiter \<Rightarrow> limiter_conc \<Rightarrow> bool" where
  "held fl l st \<longleftrightarrow>
     (case lc_holder st of
        None \<Rightarrow> lc_limiter st = l
      | Some i \<Rightarrow> \<exists>p. lc_threads st i = Some p \<and> lc_limiter st = midway fl l p)"

definition serial ::
  "(rat \<Rightarrow> rat) \<Rightarrow> Limiter \<Rightarrow> time \<Rightarrow> limiter_conc \<Rightarrow> limiter_event list \<Rightarrow> (nat \<times> string \<times> bool) list \<Rightarrow> Limiter \<Rightarrow> bool" where
  "serial fl l0 t0 st es ans l \<longleftrightarrow>
     sections fl l0 t0 (lc_clock st) es ans l \<and> answered (lc_threads st) ans \<and>
     threads_ok fl (end_time t0 es) (lc_clock st) l (lc_holder st) (lc_threads st) \<and> held fl l st"

text \<open>Steps of other threads and time leave what a thread carries as it is.\<close>

lemma carries_later: "carries fl t c l p \<Longrightarrow> c \<le> c' \<Longrightarrow> carries fl t c' l p"
  by (cases p) auto

lemma carries_outside: "\<not> in_section p \<Longrightarrow> carries fl t c l p \<Longrightarrow> carries fl t' c l' p"
  by (cases p) auto

lemma answered_upd:
  "answered ts ans \<Longrightarrow> (\<And>k ok. ts i \<noteq> Some (Returned k ok)) \<Longrightarrow> (\<And>k ok. p \<noteq> Returned k ok) \<Longrightarrow>
   answered (ts(i \<mapsto> p)) ans"
  by (auto simp: answered_def)

lemma answered_new:
  assumes "answered ts ans" and "\<And>k ok. ts i \<noteq> Some (Returned k ok)"
  shows "answered (ts(i \<mapsto> Returned k ok)) (ans @ [(i, k, ok)])"
proof -
  from assms have "i \<notin> fst ` set ans" by (force simp: answered_def)
  with assms show ?thesis by (auto simp: answered_def)
qed

lemma threads_ok_upd:
  "threads_ok fl t c l h ts \<Longrightarrow> carries fl t c l p \<Longrightarrow> (in_section p \<longleftrightarrow> h = Some i) \<Longrightarrow>
   threads_ok fl t c l h (ts(i \<mapsto> p))"
  by (auto simp: threads_ok_def)

lemma threads_ok_lock:
  "threads_ok fl t c l None ts \<Longrightarrow> carries fl t c l p \<Longrightarrow> in_section p \<Longrightarrow>
   threads_ok fl t c l (Some i) (ts(i \<mapsto> p))"
  by (auto simp: threads_ok_def)

lemma threads_ok_unlock:
  assumes "threads_ok fl t c l (Some i) ts" and "\<not> in_section p" and "carries fl t c l p"
  shows "threads_ok fl t' c l' None (ts(i \<mapsto> p))"
  using assms by (auto simp: threads_ok_def intro: carries_outside)

lemma threads_ok_holder:
  "threads_ok fl t c l h ts \<Longrightarrow> ts i = Some p \<Longrightarrow> in_section p \<Longrightarrow> h = Some i"
  by (auto simp: threads_ok_def)

lemma sections_later: "sections fl l0 t0 c es ans l \<Longrightarrow> c \<le> c' \<Longrightarrow> sections fl l0 t0 c' es ans l"
  by (force simp: sections_def)

lemma sections_call:
  assumes "sections fl l0 t0 c es ans l" and "end_time t0 es \<le> now" and "now \<le> c"
  shows "sections fl l0 t0 c (es @ [Call now k]) (ans @ [(i, k, fst (allow fl now k l))]) (snd (allow fl now k l))"
  using assms by (auto simp: sections_def in_order_append limiter_run_append split: prod.split)

lemma sections_sweep:
  assumes "sections fl l0 t0 c es ans l" and "tau \<le> c"
  shows "sections fl l0 t0 c (es @ [Sweep tau]) ans (sweep_tick tau l)"
  using assms by (auto simp: sections_def in_order_append limiter_run_append)

section \<open>The invariant\<close>

lemma serial_start: "serial fl l t (limiter_start l t) [] [] l"
  by (auto simp: serial_def sections_def answered_def threads_ok_def held_def limiter_start_def)

lemma serial_thread:
  "serial fl l0 t0 st es ans l \<Longrightarrow> lc_threads st i = Some p \<Longrightarrow>
   carries fl (end_time t0 es) (lc_clock st) l p \<and> (in_section p \<longleftrightarrow> lc_holder st = Some i)"
  by (simp add: serial_def threads_ok_def)

lemma serial_holder:
  assumes "serial fl l0 t0 st es ans l" and "lc_threads st i = Some p" and "in_section p"
  shows "lc_holder st = Some i \<and> lc_limiter st = midway fl l p"
proof -
  from serial_thread [OF assms(1,2)] assms(3) have h: "lc_holder st = Some i" by simp
  from assms(1) have "held fl l st" by (simp add: serial_def)
  with h assms(2) show ?thesis by (simp add: held_def)
qed

lemma serial_free: "serial fl l0 t0 st es ans l \<Longrightarrow> lc_holder st = None \<Longrightarrow> lc_limiter st = l"
  by (simp add: serial_def held_def)

lemma serial_passes:
  "serial fl l0 t0 st es ans l \<Longrightarrow> lc_clock st \<le> t \<Longrightarrow> serial fl l0 t0 (st\<lparr>lc_clock := t\<rparr>) es ans l"
  by (auto simp: serial_def held_def threads_ok_def intro: sections_later carries_later split: option.splits)

text \<open>A thread outside that stays outside or is new.\<close>

lemma serial_outside:
  assumes "serial fl l0 t0 st es ans l" and "lc_threads st i = None \<or> lc_threads st i = Some Sleeping"
    and "p = Calling k \<or> p = Expired (lc_clock st)"
  shows "serial fl l0 t0 (set_thread i p st) es ans l"
proof -
  have "lc_holder st \<noteq> Some i"
  proof
    assume h: "lc_holder st = Some i"
    with assms(1) obtain q where q: "lc_threads st i = Some q" by (auto simp: serial_def held_def)
    with serial_thread [OF assms(1) q] h assms(2) show False by auto
  qed
  with assms show ?thesis
    by (auto simp: serial_def set_thread_def held_def split: option.splits intro!: answered_upd threads_ok_upd)
qed

lemma midway_ranging_all: "midway fl l (Ranging tau (dom (buckets l))) = l"
proof -
  have "(\<lambda>k. if k \<in> dom (buckets l) then buckets l k else buckets (sweep_tick tau l) k) = buckets l"
    by (auto simp: fun_eq_iff sweep_tick_def Let_def domIff)
  then show ?thesis by (simp only: midway.simps) simp
qed

lemma serial_lock:
  assumes "serial fl l0 t0 st es ans l" and "lc_threads st i = Some p"
    and "p = Calling k \<and> p' = Holding k \<or> p = Expired tau \<and> p' = Ranging tau (dom (buckets (lc_limiter st)))"
  shows "serial fl l0 t0 (lock_with i p' st) es ans l"
proof (cases "lc_holder st")
  case None
  with serial_free [OF assms(1)] have l: "lc_limiter st = l" .
  have "carries fl (end_time t0 es) (lc_clock st) l p"
    using serial_thread [OF assms(1,2)] by simp
  with l assms(3) have p': "carries fl (end_time t0 es) (lc_clock st) l p'" "in_section p'" "midway fl l p' = l"
    using midway_ranging_all [of fl l] by auto
  with None l assms show ?thesis
    by (auto simp: serial_def lock_with_def set_thread_def held_def intro!: answered_upd threads_ok_lock)
next
  case (Some j)
  with assms(1) show ?thesis by (simp add: lock_with_def)
qed

lemma serial_inside:
  assumes "serial fl l0 t0 st es ans l" and "lc_threads st i = Some p" and "in_section p"
    and "\<And>k now ok. p \<noteq> Unlocking k now ok"
    and "section_step fl (lc_clock st) pick p (lc_limiter st) = (p', lm)"
  shows "serial fl l0 t0 ((set_thread i p' st)\<lparr>lc_limiter := lm\<rparr>) es ans l"
proof -
  let ?t = "end_time t0 es"
  from serial_holder [OF assms(1-3)] have h: "lc_holder st = Some i" and m: "lc_limiter st = midway fl l p"
    by auto
  from serial_thread [OF assms(1,2)] assms(1) have c: "carries fl ?t (lc_clock st) l p" "?t \<le> lc_clock st"
    by (auto simp: serial_def sections_def)
  from section_step_midway [OF assms(5) [unfolded m] assms(3) c assms(4)]
  have p': "in_section p'" "lm = midway fl l p'" "carries fl ?t (lc_clock st) l p'" by auto
  have "answered ((lc_threads st)(i \<mapsto> p')) ans"
    by (rule answered_upd) (use assms(1-3) p'(1) in \<open>auto simp: serial_def\<close>)
  with assms(1,2) h p' show ?thesis
    by (auto simp: serial_def set_thread_def held_def intro!: threads_ok_upd)
qed

lemma serial_call_over:
  assumes "serial fl l0 t0 st es ans l" and "lc_threads st i = Some (Unlocking k now ok)"
  shows "serial fl l0 t0 (unlock_with i (Returned k ok) st) (es @ [Call now k]) (ans @ [(i, k, ok)])
           (snd (allow fl now k l))"
proof -
  from serial_holder [OF assms] have h: "lc_holder st = Some i" and lm: "lc_limiter st = snd (allow fl now k l)"
    by auto
  from serial_thread [OF assms] have ok: "ok = fst (allow fl now k l)"
    and now: "end_time t0 es \<le> now" "now \<le> lc_clock st" by auto
  from assms sections_call [OF _ now, of fl l0 ans l k i]
  have "sections fl l0 t0 (lc_clock st) (es @ [Call now k]) (ans @ [(i, k, ok)]) (snd (allow fl now k l))"
    by (simp add: serial_def ok)
  with assms h lm show ?thesis
    by (auto simp: serial_def unlock_with_def set_thread_def held_def intro!: answered_new threads_ok_unlock)
qed

lemma serial_sweep_over:
  assumes "serial fl l0 t0 st es ans l" and "lc_threads st i = Some (Ranging tau {})"
  shows "serial fl l0 t0 (unlock_with i Sleeping st) (es @ [Sweep tau]) ans (sweep_tick tau l)"
proof -
  from serial_holder [OF assms] have h: "lc_holder st = Some i" and lm: "lc_limiter st = sweep_tick tau l"
    by (auto simp: sweep_tick_def Let_def)
  from serial_thread [OF assms] have tau: "tau \<le> lc_clock st" by simp
  from assms sections_sweep [OF _ tau, of fl l0 t0 es ans l]
  have "sections fl l0 t0 (lc_clock st) (es @ [Sweep tau]) ans (sweep_tick tau l)" by (simp add: serial_def)
  with assms h lm show ?thesis
    by (auto simp: serial_def unlock_with_def set_thread_def held_def intro!: answered_upd threads_ok_unlock)
qed

lemma serial_turn:
  assumes "serial fl l0 t0 st es ans l"
  shows "\<exists>es' ans' l'. serial fl l0 t0 (thread_turn fl i pick st) es' ans' l'"
proof (cases "lc_threads st i")
  case None
  with assms show ?thesis by (auto simp: thread_turn_def)
next
  case (Some p)
  have inside: ?thesis if "in_section p" and "\<And>k now ok. p \<noteq> Unlocking k now ok"
    and "thread_turn fl i pick st = (case section_step fl (lc_clock st) pick p (lc_limiter st) of
      (p', lm) \<Rightarrow> (set_thread i p' st)\<lparr>lc_limiter := lm\<rparr>)"
    using serial_inside [OF assms Some that(1,2), of pick] that(3) by (auto split: prod.splits)
  note turn = thread_turn_def Some
  show ?thesis
  proof (cases p)
    case (Calling k)
    with serial_lock [OF assms Some] show ?thesis by (auto simp: turn)
  next
    case (Expired tau)
    with serial_lock [OF assms Some] show ?thesis by (auto simp: turn)
  next
    case Sleeping
    with serial_outside [OF assms, of i] Some have "serial fl l0 t0 (set_thread i (Expired (lc_clock st)) st) es ans l"
      by blast
    with Sleeping show ?thesis by (auto simp: turn)
  next
    case (Unlocking k now ok)
    from serial_call_over [OF assms Some [unfolded Unlocking]] Unlocking show ?thesis
      by (fastforce simp: turn)
  next
    case (Ranging tau todo)
    show ?thesis
    proof (cases "todo = {}")
      case True
      from serial_sweep_over [OF assms Some [unfolded Ranging True]] Ranging True show ?thesis
        by (fastforce simp: turn)
    next
      case False
      with Ranging inside show ?thesis by (auto simp: turn)
    qed
  qed (use assms inside in \<open>auto simp: turn\<close>)
qed

lemma steps_serial:
  "limiter_steps fl (limiter_start l0 t0) st \<Longrightarrow> \<exists>es ans l. serial fl l0 t0 st es ans l"
proof (induction rule: limiter_steps.induct)
  case stays
  show ?case using serial_start by blast
next
  case (passes st t st')
  then show ?case using serial_passes by blast
next
  case (arrives st i st')
  then show ?case using serial_outside by blast
next
  case (moves st st' i pick)
  then show ?case using serial_turn by blast
qed

section \<open>Progress\<close>

lemma steps_trans: "limiter_steps fl st st' \<Longrightarrow> limiter_steps fl s0 st \<Longrightarrow> limiter_steps fl s0 st'"
  by (induction rule: limiter_steps.induct) (auto intro: limiter_steps.intros)

lemma allow_finite: "finite (dom (buckets l)) \<Longrightarrow> finite (dom (buckets (snd (allow fl now k l))))"
  by (simp add: allow_set_bucket)

lemma sweep_finite: "finite (dom (buckets l)) \<Longrightarrow> finite (dom (buckets (sweep_tick now l)))"
  by (rule finite_subset [of _ "dom (buckets l)"]) (auto dest: sweep_Some)

lemma run_finite: "finite (dom (buckets l)) \<Longrightarrow> finite (dom (buckets (snd (limiter_run fl es l))))"
proof (induction fl es l rule: limiter_run.induct)
  case (2 fl now key es l)
  then show ?case using allow_finite [of l fl now key] by (auto split: prod.splits)
qed (auto intro: sweep_finite)

text \<open>The statements a holder still has to make, and where they lead.\<close>

fun rank :: "limiter_pc \<Rightarrow> nat" where
  "rank (Holding k) = 6"
| "rank (Lookup k now) = 5"
| "rank (Refill k now) = 4"
| "rank (Stamp k now) = 3"
| "rank (Take k now) = 2"
| "rank (Unlocking k now ok) = 1"
| "rank (Ranging tau todo) = Suc (card todo)"
| "rank _ = 0"

fun leads_to :: "limiter_pc \<Rightarrow> limiter_pc \<Rightarrow> bool" where
  "leads_to (Holding k) q = (\<exists>ok. q = Returned k ok)"
| "leads_to (Lookup k now) q = (\<exists>ok. q = Returned k ok)"
| "leads_to (Refill k now) q = (\<exists>ok. q = Returned k ok)"
| "leads_to (Stamp k now) q = (\<exists>ok. q = Returned k ok)"
| "leads_to (Take k now) q = (\<exists>ok. q = Returned k ok)"
| "leads_to (Unlocking k now ok) q = (q = Returned k ok)"
| "leads_to (Ranging tau todo) q = (q = Sleeping)"
| "leads_to p q = (q = p)"

lemma section_step_rank:
  assumes "section_step fl c pick p (midway fl l p) = (p', l')" and "in_section p"
    and "\<And>k now ok. p \<noteq> Unlocking k now ok" and "\<And>tau todo. p = Ranging tau todo \<Longrightarrow> finite todo \<and> pick \<in> todo"
  shows "rank p' < rank p \<and> (\<forall>q. leads_to p' q \<longrightarrow> leads_to p q)"
proof (cases p)
  case (Ranging tau todo)
  with assms(4) have "card (todo - {pick}) < card todo" by (blast intro: card_Diff1_less)
  with assms Ranging show ?thesis by (auto split: option.splits simp: Let_def)
qed (use assms in \<open>auto split: option.splits if_splits simp: Let_def\<close>)

lemma holder_step:
  assumes "serial fl l0 t0 st es ans l" and "lc_threads st i = Some p" and "in_section p"
    and "finite (dom (buckets l))"
  obtains pick q where "lc_threads (thread_turn fl i pick st) = (lc_threads st)(i \<mapsto> q)"
    "if in_section q then rank q < rank p \<and> (\<forall>r. leads_to q r \<longrightarrow> leads_to p r)
     else lc_holder (thread_turn fl i pick st) = None \<and> leads_to p q"
proof -
  note lm = serial_holder [OF assms(1-3)]
  define pick where "pick = (SOME k. \<exists>tau todo. p = Ranging tau todo \<and> k \<in> todo)"
  obtain p' l' where step: "section_step fl (lc_clock st) pick p (midway fl l p) = (p', l')" by (metis surj_pair)
  consider (call) k now ok where "p = Unlocking k now ok" | (sweep) tau where "p = Ranging tau {}"
    | (more) "\<And>k now ok. p \<noteq> Unlocking k now ok" "\<And>tau. p \<noteq> Ranging tau {}" by blast
  then show thesis
  proof cases
    case call
    with assms(2) show thesis
      by (intro that [of pick "Returned k ok"]) (auto simp: thread_turn_def unlock_with_def set_thread_def)
  next
    case sweep
    with assms(2) show thesis
      by (intro that [of pick Sleeping]) (auto simp: thread_turn_def unlock_with_def set_thread_def)
  next
    case more
    have ranging: "finite todo \<and> pick \<in> todo" if "p = Ranging tau todo" for tau todo
    proof
      from serial_thread [OF assms(1,2)] that assms(4) show "finite todo" by (auto intro: finite_subset)
      from more(2) that obtain k where "k \<in> todo" by auto
      with that show "pick \<in> todo" unfolding pick_def by (auto intro: someI)
    qed
    note rank = section_step_rank [OF step assms(3) more(1) ranging]
    from serial_thread [OF assms(1,2)] assms(1) have "carries fl (end_time t0 es) (lc_clock st) l p"
      and "end_time t0 es \<le> lc_clock st" by (auto simp: serial_def sections_def)
    from section_step_midway [OF step assms(3) this more(1)] have "in_section p'" by simp
    moreover have "thread_turn fl i pick st = (set_thread i p' st)\<lparr>lc_limiter := l'\<rparr>"
      using assms(2,3) more lm step by (cases p) (auto simp: thread_turn_def)
    ultimately show thesis using rank by (intro that [of pick p']) (auto simp: set_thread_def)
  qed
qed

lemma holder_leaves:
  assumes "limiter_steps fl (limiter_start l0 t0) st" and "finite (dom (buckets l0))"
    and "lc_threads st i = Some p" and "in_section p"
  shows "\<exists>st' q. limiter_steps fl st st' \<and> lc_holder st' = None \<and>
    lc_threads st' = (lc_threads st)(i \<mapsto> q) \<and> leads_to p q"
  using assms
proof (induction "rank p" arbitrary: p st rule: less_induct)
  case less
  from steps_serial [OF less.prems(1)] obtain es ans l where s: "serial fl l0 t0 st es ans l" by blast
  then have "snd (limiter_run fl es l0) = l" by (simp add: serial_def sections_def)
  with run_finite [OF less.prems(2)] have fin: "finite (dom (buckets l))" by blast
  obtain pick q where q: "lc_threads (thread_turn fl i pick st) = (lc_threads st)(i \<mapsto> q)"
    "if in_section q then rank q < rank p \<and> (\<forall>r. leads_to q r \<longrightarrow> leads_to p r)
     else lc_holder (thread_turn fl i pick st) = None \<and> leads_to p q"
    by (rule holder_step [OF s less.prems(3,4) fin])
  let ?st = "thread_turn fl i pick st"
  have one: "limiter_steps fl st ?st" by (rule limiter_steps.moves [OF limiter_steps.stays refl])
  show ?case
  proof (cases "in_section q")
    case True
    from q(1) have "lc_threads ?st i = Some q" by simp
    from q(2) True have r: "rank q < rank p" "\<forall>r. leads_to q r \<longrightarrow> leads_to p r" by auto
    from less.hyps [OF r(1) steps_trans [OF one less.prems(1)] less.prems(2) \<open>lc_threads ?st i = Some q\<close> True]
    obtain st' r where "limiter_steps fl ?st st'" "lc_holder st' = None"
      "lc_threads st' = (lc_threads ?st)(i \<mapsto> r)" "leads_to q r" by blast
    with q(1) r(2) steps_trans [OF _ one] show ?thesis by (metis fun_upd_upd)
  next
    case False
    with q one show ?thesis by auto
  qed
qed

lemma call_returns:
  assumes "limiter_steps fl (limiter_start l0 t0) st" and "finite (dom (buckets l0))"
    and "lc_threads st i = Some (Calling k)"
  shows "\<exists>st' ok. limiter_steps fl st st' \<and> lc_threads st' i = Some (Returned k ok)"
proof -
  have free: ?thesis if st1: "limiter_steps fl st st1" and "lc_holder st1 = None" "lc_threads st1 i = Some (Calling k)" for st1
  proof -
    let ?st2 = "thread_turn fl i [] st1"
    have st2: "limiter_steps fl st ?st2" using st1 by (rule limiter_steps.moves) simp
    have "lc_threads ?st2 i = Some (Holding k)"
      using that by (simp add: thread_turn_def lock_with_def set_thread_def)
    from holder_leaves [OF steps_trans [OF st2 assms(1)] assms(2) this]
    obtain st' q where "limiter_steps fl ?st2 st'" "lc_threads st' = (lc_threads ?st2)(i \<mapsto> q)" "leads_to (Holding k) q"
      by auto
    with steps_trans [OF _ st2] show ?thesis by fastforce
  qed
  show ?thesis
  proof (cases "lc_holder st")
    case None
    with free [OF limiter_steps.stays] assms(3) show ?thesis by blast
  next
    case (Some j)
    from steps_serial [OF assms(1)] obtain es ans l where s: "serial fl l0 t0 st es ans l" by blast
    with Some obtain p where p: "lc_threads st j = Some p" by (auto simp: serial_def held_def)
    with serial_thread [OF s p] Some have sec: "in_section p" by simp
    then have "j \<noteq> i" using p assms(3) by auto
    moreover from holder_leaves [OF assms(1,2) p sec] obtain st1 q where "limiter_steps fl st st1"
      "lc_holder st1 = None" "lc_threads st1 = (lc_threads st)(j \<mapsto> q)" by blast
    ultimately show ?thesis using free [of st1] assms(3) by simp
  qed
qed

section \<open>Properties\<close>

lemma returned_card:
  assumes "answered ts ans"
  shows "card {i. ts i = Some (Returned k True)} = passed k (map snd ans)"
    and "card {i. \<exists>ok. ts i = Some (Returned k ok)} = attempts k (map snd ans)"
proof -
  from assms have d: "distinct (map fst ans)" and in_ans: "\<And>i k ok. ts i = Some (Returned k ok) \<longleftrightarrow> (i, k, ok) \<in> set ans"
    by (auto simp: answered_def)
  have count: "card (fst ` set (filter P ans)) = length (filter (\<lambda>a. P a) ans)" for P
    using distinct_card [OF distinct_map_filter [OF d, of P]] by simp
  have "{i. ts i = Some (Returned k True)} = fst ` set (filter (\<lambda>a. snd a = (k, True)) ans)"
    by (force simp: in_ans)
  then show "card {i. ts i = Some (Returned k True)} = passed k (map snd ans)"
    using count [of "\<lambda>a. snd a = (k, True)"] by (simp add: passed_def filter_map comp_def)
  have "{i. \<exists>ok. ts i = Some (Returned k ok)} = fst ` set (filter (\<lambda>a. fst (snd a) = k) ans)"
    by (force simp: in_ans)
  then show "card {i. \<exists>ok. ts i = Some (Returned k ok)} = attempts k (map snd ans)"
    using count [of "\<lambda>a. fst (snd a) = k"] by (simp add: attempts_def filter_map comp_def)
qed

text \<open>A run for examples: two calls of one client, the second arriving while the first holds the mutex.\<close>

definition two_calls :: limiter_conc where
  "two_calls =
     thread_turn fl64 2 [] (set_thread 2 (Calling ''10.0.0.1'') (thread_turn fl64 1 []
       (set_thread 1 (Calling ''10.0.0.1'') (limiter_start authLimiter 0))))"

lemma two_calls_run: "limiter_steps fl64 (limiter_start authLimiter 0) two_calls"
  unfolding two_calls_def
  by (rule limiter_steps.moves [OF limiter_steps.arrives [OF limiter_steps.moves [OF limiter_steps.arrives
        [OF limiter_steps.stays _ refl] refl] _ refl] refl])
    (simp_all add: limiter_start_def thread_turn_def lock_with_def set_thread_def)

text \<open>
  C11. Concurrent requests see the limiter one at a time: in every interleaving of the statements of
  any number of calls and of the sweeper, at most one thread is between \<open>Lock\<close> and \<open>Unlock\<close>, and the
  answers are those of the calls and passes run one after the other, with clock readings that do
  not decrease from call to call; when the mutex is free, the buckets are those that this run
  leaves.
\<close>

theorem limiter_calls_serialize:
  assumes "limiter_steps fl (limiter_start l0 t0) st"
  shows "\<exists>es ans l. in_order t0 es \<and> (\<forall>e \<in> set es. event_time e \<le> lc_clock st) \<and>
    limiter_run fl es l0 = (map snd ans, l) \<and> distinct (map fst ans) \<and>
    (\<forall>i k ok. lc_threads st i = Some (Returned k ok) \<longleftrightarrow> (i, k, ok) \<in> set ans) \<and>
    (lc_holder st = None \<longrightarrow> lc_limiter st = l) \<and>
    (\<forall>i p. lc_threads st i = Some p \<longrightarrow> (in_section p \<longleftrightarrow> lc_holder st = Some i))"
proof -
  from steps_serial [OF assms] obtain es ans l where s: "serial fl l0 t0 st es ans l" by blast
  with serial_free [OF s] serial_thread [OF s] show ?thesis
    by (intro exI [of _ es] exI [of _ ans] exI [of _ l]) (auto simp: serial_def sections_def answered_def)
qed

theorem limiter_calls_serialize_witness:
  "\<exists>es ans l. in_order 0 es \<and> limiter_run fl64 es authLimiter = (map snd ans, l) \<and>
    (\<forall>i k ok. lc_threads two_calls i = Some (Returned k ok) \<longleftrightarrow> (i, k, ok) \<in> set ans)"
  using limiter_calls_serialize [OF two_calls_run] by blast

text \<open>
  C10. The long-run rate, under concurrency: from its creation at \<open>t0\<close> on, whatever clients do at the
  same time and whenever the sweeper runs, the number of requests of one client that a limiter has
  let pass is at most \<open>burst + rate * (now - t0)\<close>, up to the rounding of the \<open>float64\<close> arithmetic:
  a factor \<open>(1 + 2^-53)^4\<close> on the refill and \<open>2^-52 * burst\<close> per request.
\<close>

theorem limiter_bound:
  assumes "sane (Limiter_New r b ttl)" and "limiter_steps fl64 (limiter_start (Limiter_New r b ttl) t0) st"
  shows "of_nat (card {i. lc_threads st i = Some (Returned key True)}) \<le>
    b + r * (of_int (lc_clock st - t0) / 1000000000) * (1 + 1 / 2 ^ 53) ^ 4 +
    of_nat (card {i. \<exists>ok. lc_threads st i = Some (Returned key ok)}) * b / 2 ^ 52"
proof -
  from steps_serial [OF assms(2)] obtain es ans l where s: "sections fl64 (Limiter_New r b ttl) t0 (lc_clock st) es ans l"
    and a: "answered (lc_threads st) ans" by (auto simp: serial_def)
  have "t \<le> end_time t es" if "in_order t es" for t using that
    by (induction es arbitrary: t) (auto intro: order_trans)
  with s have "t0 \<le> lc_clock st" by (auto simp: sections_def intro: order_trans)
  with s limiter_rate_bound [OF assms(1), of t0 es "lc_clock st" "map snd ans" l key] show ?thesis
    by (simp add: returned_card [OF a] sections_def)
qed

theorem limiter_bound_witness:
  "of_nat (card {i. lc_threads two_calls i = Some (Returned ''10.0.0.1'' True)}) \<le>
    5 + 1 * (of_int (lc_clock two_calls - 0) / 1000000000) * (1 + 1 / 2 ^ 53) ^ 4 +
    (of_nat (card {i. \<exists>ok. lc_threads two_calls i = Some (Returned ''10.0.0.1'' ok)}) * 5 / 2 ^ 52 :: rat)"
proof -
  have "authLimiter = Limiter_New 1 5 limiterEntryTTL"
    by (simp add: authLimiter_def authEndpointRate_def authEndpointBurst_def)
  with configured_sane(2) two_calls_run limiter_bound [of 1 5 limiterEntryTTL 0 two_calls] show ?thesis by simp
qed

text \<open>
  C31. No request hangs in the limiter: whatever the threads have done so far, and also while the
  sweeper or another call holds the mutex, a call that has begun can be run to its return.
\<close>

theorem limiter_call_can_return:
  assumes "limiter_steps fl (limiter_start (Limiter_New r b ttl) t0) st" and "lc_threads st i = Some (Calling k)"
  shows "\<exists>st' ok. limiter_steps fl st st' \<and> lc_threads st' i = Some (Returned k ok)"
  by (rule call_returns [OF assms(1) _ assms(2)]) (simp add: Limiter_New_def)

theorem limiter_call_can_return_witness:
  "lc_holder two_calls = Some 1 \<and> lc_threads two_calls 2 = Some (Calling ''10.0.0.1'') \<and>
   (\<exists>st' ok. limiter_steps fl64 two_calls st' \<and> lc_threads st' 2 = Some (Returned ''10.0.0.1'' ok))"
proof (intro conjI)
  show "lc_holder two_calls = Some 1" and c: "lc_threads two_calls 2 = Some (Calling ''10.0.0.1'')"
    by (simp_all add: two_calls_def limiter_start_def thread_turn_def lock_with_def set_thread_def)
  from limiter_call_can_return [OF two_calls_run [unfolded authLimiter_def] c]
  show "\<exists>st' ok. limiter_steps fl64 two_calls st' \<and> lc_threads st' 2 = Some (Returned ''10.0.0.1'' ok)" .
qed

end
