(* ===== verification/Wire_Graph.thy ===== *)
theory Wire_Graph
  imports Bootstrap "HOL-Library.Multiset"
begin

text \<open>
  The dependency graph of \<open>internal/bootstrap/wire.go\<close>, from which \<open>wire_gen.go\<close> was generated: the
  provider sets and the injectors as data, what makes a list of calls an injector for a set, and
  that a set leaves no choice but the order of independent calls.
\<close>

section \<open>Providers\<close>

datatype wire_type =
    TConfig | TLogger | TString | TPostgresRepo | TCacheStorage | TRedisClient | TDuration | TCache
  | TURLRepository | TGenerator | TAliasGenerator | TServiceConfig | TService | TURLService | TOptions
  | TClient | TAuthService | TAuthHandler | TVerifier | TValidate | THandler | THttpHandler | TServer | TApp

datatype provider =
    P_provideLogger | P_provideDatabaseURL | P_InitPostgres | P_provideRedis | P_provideCacheTTL | P_cache_New
  | P_provideAliasGenerator | P_provideServiceConfig | P_service_New | P_provideValidator | P_handlers_New
  | P_provideSSOClientOptions | P_provideSSOClient | P_NewAuth | P_provideAuthVerifier | P_NewRouter
  | P_NewServer | P_app_New

text \<open>The parameters and the first result of each, and which of them return a cleanup.\<close>

fun needs :: "provider \<Rightarrow> wire_type list" where
  "needs P_provideLogger = [TConfig]"
| "needs P_provideDatabaseURL = [TConfig]"
| "needs P_InitPostgres = [TLogger, TString]"
| "needs P_provideRedis = [TConfig, TLogger]"
| "needs P_provideCacheTTL = [TConfig]"
| "needs P_cache_New = [TLogger, TCacheStorage, TRedisClient, TDuration]"
| "needs P_provideAliasGenerator = [TConfig]"
| "needs P_provideServiceConfig = [TConfig]"
| "needs P_service_New = [TLogger, TURLRepository, TAliasGenerator, TServiceConfig]"
| "needs P_provideValidator = []"
| "needs P_handlers_New = [TLogger, TURLService, TValidate]"
| "needs P_provideSSOClientOptions = [TConfig]"
| "needs P_provideSSOClient = [TOptions]"
| "needs P_NewAuth = [TLogger, TAuthService]"
| "needs P_provideAuthVerifier = [TConfig]"
| "needs P_NewRouter = [TLogger, THandler, TAuthHandler, TVerifier, TPostgresRepo, TRedisClient]"
| "needs P_NewServer = [TConfig, THttpHandler]"
| "needs P_app_New = [TLogger, TServer]"

fun gives :: "provider \<Rightarrow> wire_type" where
  "gives P_provideLogger = TLogger"
| "gives P_provideDatabaseURL = TString"
| "gives P_InitPostgres = TPostgresRepo"
| "gives P_provideRedis = TRedisClient"
| "gives P_provideCacheTTL = TDuration"
| "gives P_cache_New = TCache"
| "gives P_provideAliasGenerator = TGenerator"
| "gives P_provideServiceConfig = TServiceConfig"
| "gives P_service_New = TService"
| "gives P_provideValidator = TValidate"
| "gives P_handlers_New = THandler"
| "gives P_provideSSOClientOptions = TOptions"
| "gives P_provideSSOClient = TClient"
| "gives P_NewAuth = TAuthHandler"
| "gives P_provideAuthVerifier = TVerifier"
| "gives P_NewRouter = THttpHandler"
| "gives P_NewServer = TServer"
| "gives P_app_New = TApp"

definition has_cleanup :: "provider \<Rightarrow> bool" where
  "has_cleanup p \<longleftrightarrow> p = P_InitPostgres \<or> p = P_provideRedis \<or> p = P_provideSSOClient"

section \<open>\<open>wire.go\<close>\<close>

datatype wire_item = Provide provider | Bind wire_type wire_type

definition StorageSet :: "wire_item list" where
  "StorageSet =
     [Provide P_provideDatabaseURL, Provide P_InitPostgres, Bind TCacheStorage TPostgresRepo,
      Provide P_provideRedis, Provide P_provideCacheTTL, Provide P_cache_New, Bind TURLRepository TCache]"

definition ServiceSet :: "wire_item list" where
  "ServiceSet =
     [Provide P_provideAliasGenerator, Bind TAliasGenerator TGenerator,
      Provide P_provideServiceConfig, Provide P_service_New, Bind TURLService TService]"

definition AuthSet :: "wire_item list" where
  "AuthSet =
     [Provide P_provideSSOClientOptions, Provide P_provideSSOClient, Bind TAuthService TClient,
      Provide P_NewAuth, Provide P_provideAuthVerifier]"

definition HTTPSet :: "wire_item list" where
  "HTTPSet = [Provide P_provideValidator, Provide P_handlers_New, Provide P_NewRouter, Provide P_NewServer]"

definition wire_InitializeRouter :: "wire_item list" where
  "wire_InitializeRouter =
     [Provide P_provideLogger] @ StorageSet @ ServiceSet @ AuthSet @
     [Provide P_provideValidator, Provide P_handlers_New, Provide P_NewRouter]"

definition wire_InitializeApp :: "wire_item list" where
  "wire_InitializeApp =
     [Provide P_provideLogger] @ StorageSet @ ServiceSet @ AuthSet @ HTTPSet @ [Provide P_app_New]"

section \<open>The calls of \<open>wire_gen.go\<close>\<close>

record call =
  cl_var :: string
  cl_fn :: provider
  cl_args :: "string list"

definition calls :: "string \<Rightarrow> provider \<Rightarrow> string list \<Rightarrow> call" where
  "calls v p as = \<lparr>cl_var = v, cl_fn = p, cl_args = as\<rparr>"

lemma calls_simps [simp]: "cl_var (calls v p as) = v" "cl_fn (calls v p as) = p" "cl_args (calls v p as) = as"
  by (simp_all add: calls_def)

definition gen_InitializeRouter :: "call list" where
  "gen_InitializeRouter =
     [calls ''logger'' P_provideLogger [''cfg''],
      calls ''string2'' P_provideDatabaseURL [''cfg''],
      calls ''postgresRepo'' P_InitPostgres [''logger'', ''string2''],
      calls ''client'' P_provideRedis [''cfg'', ''logger''],
      calls ''duration'' P_provideCacheTTL [''cfg''],
      calls ''cache'' P_cache_New [''logger'', ''postgresRepo'', ''client'', ''duration''],
      calls ''generator'' P_provideAliasGenerator [''cfg''],
      calls ''serviceConfig'' P_provideServiceConfig [''cfg''],
      calls ''serviceService'' P_service_New [''logger'', ''cache'', ''generator'', ''serviceConfig''],
      calls ''validate'' P_provideValidator [],
      calls ''handler'' P_handlers_New [''logger'', ''serviceService'', ''validate''],
      calls ''options'' P_provideSSOClientOptions [''cfg''],
      calls ''ssoclientClient'' P_provideSSOClient [''options''],
      calls ''authHandler'' P_NewAuth [''logger'', ''ssoclientClient''],
      calls ''verifier'' P_provideAuthVerifier [''cfg''],
      calls ''httpHandler'' P_NewRouter
        [''logger'', ''handler'', ''authHandler'', ''verifier'', ''postgresRepo'', ''client'']]"

definition gen_InitializeApp :: "call list" where
  "gen_InitializeApp =
     gen_InitializeRouter @
     [calls ''server'' P_NewServer [''cfg'', ''httpHandler''],
      calls ''appApp'' P_app_New [''logger'', ''server'']]"

section \<open>Injectors\<close>

text \<open>An interface stands for the type that is bound to it.\<close>

fun resolve :: "wire_item list \<Rightarrow> wire_type \<Rightarrow> wire_type" where
  "resolve [] t = t"
| "resolve (Bind i c # ws) t = (if i = t then c else resolve ws t)"
| "resolve (Provide p # ws) t = resolve ws t"

text \<open>
  A list of calls is well wired if each calls a provider of the set, on variables that hold what its
  parameters resolve to, makes a type that has not been made before and binds a new variable; no
  result is unused but the last.
\<close>

fun wired :: "wire_item list \<Rightarrow> (string \<times> wire_type) list \<Rightarrow> call list \<Rightarrow> bool" where
  "wired ws env [] \<longleftrightarrow> True"
| "wired ws env (c # cs) \<longleftrightarrow>
     Provide (cl_fn c) \<in> set ws \<and> cl_var c \<notin> fst ` set env \<and> gives (cl_fn c) \<notin> snd ` set env \<and>
     map (map_of env) (cl_args c) = map (\<lambda>t. Some (resolve ws t)) (needs (cl_fn c)) \<and>
     wired ws ((cl_var c, gives (cl_fn c)) # env) cs"

fun all_used :: "call list \<Rightarrow> bool" where
  "all_used [] \<longleftrightarrow> True"
| "all_used (c # cs) \<longleftrightarrow> (cs = [] \<or> (\<exists>d \<in> set cs. cl_var c \<in> set (cl_args d))) \<and> all_used cs"

definition inputs :: "(string \<times> wire_type) list" where
  "inputs = [(''cfg'', TConfig)]"

definition injector :: "wire_item list \<Rightarrow> wire_type \<Rightarrow> call list \<Rightarrow> bool" where
  "injector ws t cs \<longleftrightarrow> wired ws inputs cs \<and> all_used cs \<and> cs \<noteq> [] \<and> gives (cl_fn (last cs)) = t"

lemma gives_inj: "gives p = gives q \<longleftrightarrow> p = q"
  by (cases p; cases q) simp_all

lemma gives_no_input: "gives p \<noteq> TConfig"
  by (cases p) simp_all

definition requires :: "wire_item list \<Rightarrow> provider \<Rightarrow> provider \<Rightarrow> bool" where
  "requires ws p q \<longleftrightarrow> gives q \<in> resolve ws ` set (needs p)"

lemma wired_arg_types:
  assumes "wired ws env (c # cs)"
  shows "map_of env ` set (cl_args c) = Some ` resolve ws ` set (needs (cl_fn c))"
proof -
  from assms have "map (map_of env) (cl_args c) = map (\<lambda>t. Some (resolve ws t)) (needs (cl_fn c))" by simp
  then have "set (map (map_of env) (cl_args c)) = set (map (\<lambda>t. Some (resolve ws t)) (needs (cl_fn c)))"
    by (rule arg_cong)
  then show ?thesis by (simp add: image_image)
qed

lemma wired_args:
  "wired ws env cs \<Longrightarrow> d \<in> set cs \<Longrightarrow> v \<in> set (cl_args d) \<Longrightarrow> map_of env v = Some t \<Longrightarrow>
   t \<in> resolve ws ` set (needs (cl_fn d))"
proof (induction cs arbitrary: env)
  case Nil
  then show ?case by simp
next
  case (Cons c cs)
  show ?case
  proof (cases "d = c")
    case True
    have "Some t \<in> map_of env ` set (cl_args c)" using Cons.prems(3,4) True by (force simp: image_iff)
    then show ?thesis unfolding wired_arg_types [OF Cons.prems(1)] True by blast
  next
    case False
    have "v \<in> fst ` set env" using Cons.prems(4) by (metis map_of_eq_None_iff option.distinct(1))
    with Cons.prems(1) have w: "wired ws ((cl_var c, gives (cl_fn c)) # env) cs" and v: "v \<noteq> cl_var c"
      by (simp, metis wired.simps(2))
    from False Cons.prems(2) have "d \<in> set cs" by simp
    from Cons.IH [OF w this Cons.prems(3)] v Cons.prems(4) show ?thesis by simp
  qed
qed

text \<open>What a call requires is called, and what is called is required.\<close>

lemma wired_closed:
  "wired ws env cs \<Longrightarrow> c \<in> set cs \<Longrightarrow> requires ws (cl_fn c) q \<Longrightarrow> q \<in> cl_fn ` set cs \<or> gives q \<in> snd ` set env"
proof (induction cs arbitrary: env)
  case Nil
  then show ?case by simp
next
  case (Cons d cs)
  show ?case
  proof (cases "c = d")
    case True
    from Cons.prems(3) have "Some (gives q) \<in> map_of env ` set (cl_args d)"
      unfolding wired_arg_types [OF Cons.prems(1)] True requires_def by blast
    then obtain v where "map_of env v = Some (gives q)" by auto
    then have "(v, gives q) \<in> set env" by (rule map_of_SomeD)
    then have "gives q \<in> snd ` set env" by force
    then show ?thesis ..
  next
    case False
    with Cons.prems have "wired ws ((cl_var d, gives (cl_fn d)) # env) cs" "c \<in> set cs" by auto
    from Cons.IH [OF this Cons.prems(3)] consider "q \<in> cl_fn ` set cs" | "gives q = gives (cl_fn d)"
      | "gives q \<in> snd ` set env" by auto
    then show ?thesis by cases (simp_all add: gives_inj)
  qed
qed

lemma wired_required:
  "wired ws env cs \<Longrightarrow> all_used cs \<Longrightarrow> c \<in> set cs \<Longrightarrow> (requires ws)\<^sup>*\<^sup>* (cl_fn (last cs)) (cl_fn c)"
proof (induction cs arbitrary: c env)
  case Nil
  then show ?case by simp
next
  case (Cons e cs)
  let ?env = "(cl_var e, gives (cl_fn e)) # env"
  show ?case
  proof (cases "cs = []")
    case True
    with Cons.prems show ?thesis by simp
  next
    case False
    with Cons.prems have IH: "(requires ws)\<^sup>*\<^sup>* (cl_fn (last (e # cs))) (cl_fn d)" if "d \<in> set cs" for d
      using Cons.IH [of ?env d] that by simp
    from False Cons.prems(2) obtain d where d: "d \<in> set cs" "cl_var e \<in> set (cl_args d)" by auto
    with wired_args [of ws ?env cs d "cl_var e" "gives (cl_fn e)"] Cons.prems(1)
    have "requires ws (cl_fn d) (cl_fn e)" by (simp add: requires_def)
    with IH [OF d(1)] have "(requires ws)\<^sup>*\<^sup>* (cl_fn (last (e # cs))) (cl_fn e)" by (rule rtranclp.rtrancl_into_rtrancl)
    with Cons.prems(3) IH show ?thesis by auto
  qed
qed

lemma wired_distinct:
  "wired ws env cs \<Longrightarrow> distinct (map cl_fn cs) \<and> (\<forall>c \<in> set cs. gives (cl_fn c) \<notin> snd ` set env)"
proof (induction cs arbitrary: env)
  case (Cons c cs)
  with Cons.IH [of "(cl_var c, gives (cl_fn c)) # env"] show ?case by auto
qed simp

lemma injector_subset:
  assumes "injector ws t cs" and "injector ws t ds"
  shows "cl_fn ` set cs \<subseteq> cl_fn ` set ds"
proof -
  from assms have goal: "cl_fn (last cs) = cl_fn (last ds)" and "cl_fn (last ds) \<in> cl_fn ` set ds"
    by (auto simp: injector_def simp flip: gives_inj)
  have "q \<in> cl_fn ` set ds" if "(requires ws)\<^sup>*\<^sup>* (cl_fn (last ds)) q" for q using that
  proof (induction rule: rtranclp_induct)
    case base
    show ?case by fact
  next
    case (step p q)
    from step.IH obtain d where "d \<in> set ds" "p = cl_fn d" by auto
    with wired_closed [of ws inputs ds d q] assms(2) step.hyps(2) show ?case
      by (auto simp: injector_def inputs_def gives_no_input)
  qed
  with wired_required [of ws inputs cs] assms(1) goal show ?thesis by (auto simp: injector_def)
qed

lemma injectors_same_calls:
  assumes "injector ws t cs" and "injector ws t ds"
  shows "mset (map cl_fn cs) = mset (map cl_fn ds)"
proof -
  from assms have "distinct (map cl_fn cs)" "distinct (map cl_fn ds)"
    by (auto simp: injector_def dest: wired_distinct)
  moreover from injector_subset [OF assms] injector_subset [OF assms(2,1)]
  have "set (map cl_fn cs) = set (map cl_fn ds)" by auto
  ultimately show ?thesis by (simp only: set_eq_iff_mset_eq_distinct)
qed

lemmas wire_sets = wire_InitializeRouter_def wire_InitializeApp_def StorageSet_def ServiceSet_def AuthSet_def HTTPSet_def

lemma gen_router_injects: "injector wire_InitializeRouter THttpHandler gen_InitializeRouter"
  by (simp add: injector_def gen_InitializeRouter_def wire_sets inputs_def)

lemma gen_app_injects: "injector wire_InitializeApp TApp gen_InitializeApp"
  by (simp add: injector_def gen_InitializeApp_def gen_InitializeRouter_def wire_sets inputs_def)

lemma gen_app_complete: "{p. Provide p \<in> set wire_InitializeApp} = cl_fn ` set gen_InitializeApp"
  by (auto simp: gen_InitializeApp_def gen_InitializeRouter_def wire_sets)

section \<open>Properties\<close>

text \<open>
  C32. The injector for the application that \<open>wire_gen.go\<close> contains is right for the provider sets
  of \<open>wire.go\<close>, and the only one: it calls every provider of the sets, each once, on values of the
  types it takes, and leaves no result unused; and every list of calls of which this holds consists of
  the same calls, in this or another order.
\<close>

theorem wire_gen_follows_wire:
  assumes "injector wire_InitializeApp TApp cs"
  shows "injector wire_InitializeApp TApp gen_InitializeApp \<and>
    mset (map cl_fn cs) = mset (map cl_fn gen_InitializeApp) \<and>
    {p. Provide p \<in> set wire_InitializeApp} = cl_fn ` set cs"
  using injectors_same_calls [OF assms gen_app_injects] gen_app_injects gen_app_complete
  by (metis list.set_map set_mset_mset)

text \<open>The validator could be built first.\<close>

theorem wire_gen_follows_wire_witness:
  "\<exists>cs. cs \<noteq> gen_InitializeApp \<and> injector wire_InitializeApp TApp cs \<and>
     mset (map cl_fn cs) = mset (map cl_fn gen_InitializeApp)"
proof -
  let ?cs = "calls ''validate'' P_provideValidator [] # filter (\<lambda>c. cl_fn c \<noteq> P_provideValidator) gen_InitializeApp"
  have "injector wire_InitializeApp TApp ?cs"
    by (simp add: injector_def gen_InitializeApp_def gen_InitializeRouter_def wire_sets inputs_def)
  moreover from wire_gen_follows_wire [OF this] have "mset (map cl_fn ?cs) = mset (map cl_fn gen_InitializeApp)" by blast
  moreover have "?cs \<noteq> gen_InitializeApp" by (simp add: gen_InitializeApp_def gen_InitializeRouter_def calls_def)
  ultimately show ?thesis by blast
qed

text \<open>
  The graph and the model of the injector agree on what is opened: the resources of a start-up
  are those of the providers with a cleanup, in the order of the calls.
\<close>

fun opener :: "('p, 'r, 'c) resource \<Rightarrow> provider" where
  "opener (PoolRes p) = P_InitPostgres"
| "opener (RedisRes r) = P_provideRedis"
| "opener (ConnRes c) = P_provideSSOClient"

lemma opened_as_wired:
  assumes "resource_log (lib_rt d) (lib_grpc d) changes (lib_pgx d) (lib_redis d) lg"
    and "InitializeApp d cfg w = Some (Inr (app, cleanup), w')"
  shows "\<exists>hs. lg w' = lg w @ map Opened hs \<and> lg (cleanup w') = lg w' @ map Closed (rev hs) \<and>
    map opener hs = filter has_cleanup (map cl_fn gen_InitializeApp)"
proof (cases rule: InitializeRouter_log [OF assms(1), where cfg = cfg and w = w, case_names released redis ready])
  case (ready h cl w1 p r c)
  with assms(2) show ?thesis
    by (intro exI [of _ "[PoolRes p, RedisRes r, ConnRes c]"])
      (auto simp: InitializeApp_eq gen_InitializeApp_def gen_InitializeRouter_def has_cleanup_def)
qed (use assms(2) in \<open>auto simp: InitializeApp_eq\<close>)

end
