(* ===== verification/Json_Text.thy ===== *)
theory Json_Text
  imports Response
begin

text \<open>
  The text of a response body: what \<open>encoding/json\<close> writes for the structs of
  \<open>internal/transport/http/response\<close> and \<open>internal/transport/http/handlers\<close> with their tags, and a
  decoder as a client has it. Strings are quoted byte by byte as the encoder does it, with HTML
  characters and line separators escaped and bytes that are not UTF-8 replaced, and the document
  ends with the newline of the encoder.
\<close>

section \<open>Bytes and runes\<close>

definition byte :: "char \<Rightarrow> nat" where
  "byte c = of_char c"

lemma byte_less [simp]: "byte c < 256"
  by (simp add: byte_def)

lemma byte_inject: "byte c = byte d \<longleftrightarrow> c = d"
  by (simp add: byte_def)

lemma char_of_byte [simp]: "char_of (byte c) = c"
  by (simp add: byte_def)

lemma byte_char_of [simp]: "n < 256 \<Longrightarrow> byte (char_of n) = n"
  by (simp add: byte_def)

definition cont :: "char \<Rightarrow> bool" where
  "cont c \<longleftrightarrow> 0x80 \<le> byte c \<and> byte c \<le> 0xBF"

text \<open>
  \<open>utf8.DecodeRuneInString\<close>: the number of bytes of the rune at the head of a string, 0 where
  there is none (no overlong forms, no surrogates, nothing above U+10FFFF).
\<close>

definition second_ok :: "nat \<Rightarrow> char \<Rightarrow> bool" where
  "second_ok b c \<longleftrightarrow> cont c \<and> (b = 0xE0 \<longrightarrow> 0xA0 \<le> byte c) \<and> (b = 0xED \<longrightarrow> byte c \<le> 0x9F) \<and>
     (b = 0xF0 \<longrightarrow> 0x90 \<le> byte c) \<and> (b = 0xF4 \<longrightarrow> byte c \<le> 0x8F)"

fun rune_size :: "string \<Rightarrow> nat" where
  "rune_size [] = 0"
| "rune_size (c # s) =
     (let b = byte c in
      if b < 0x80 then 1
      else if 0xC2 \<le> b \<and> b \<le> 0xDF then
        (case s of c1 # _ \<Rightarrow> if second_ok b c1 then 2 else 0 | _ \<Rightarrow> 0)
      else if 0xE0 \<le> b \<and> b \<le> 0xEF then
        (case s of c1 # c2 # _ \<Rightarrow> if second_ok b c1 \<and> cont c2 then 3 else 0 | _ \<Rightarrow> 0)
      else if 0xF0 \<le> b \<and> b \<le> 0xF4 then
        (case s of c1 # c2 # c3 # _ \<Rightarrow> if second_ok b c1 \<and> cont c2 \<and> cont c3 then 4 else 0 | _ \<Rightarrow> 0)
      else 0)"

lemma rune_size_le: "rune_size s \<le> length s"
  by (cases s) (auto simp: Let_def split: list.splits)

lemma rune_size_append: "0 < rune_size s \<Longrightarrow> rune_size (s @ t) = rune_size s"
  by (cases s) (auto simp: Let_def split: list.splits if_splits)

lemma rune_size_take: "0 < rune_size s \<Longrightarrow> rune_size (take (rune_size s) s) = rune_size s"
  by (cases s) (auto simp: Let_def numeral_eq_Suc split: list.splits if_splits)

function valid_utf8 :: "string \<Rightarrow> bool" where
  "valid_utf8 [] \<longleftrightarrow> True"
| "valid_utf8 (c # s) \<longleftrightarrow> 0 < rune_size (c # s) \<and> valid_utf8 (drop (rune_size (c # s) - 1) s)"
  by pat_completeness auto
termination by (relation "measure length") auto

lemma valid_ascii: "(\<And>c. c \<in> set s \<Longrightarrow> byte c < 0x80) \<Longrightarrow> valid_utf8 s"
  by (induction s) simp_all

section \<open>Strings\<close>

definition hex :: "nat \<Rightarrow> char" where
  "hex n = (if n < 10 then char_of (48 + n) else char_of (87 + n))"

definition unicode_escape :: "nat \<Rightarrow> string" where
  "unicode_escape n = CHR 0x5C # CHR ''u'' # map hex [n div 4096 mod 16, n div 256 mod 16, n div 16 mod 16, n mod 16]"

definition quote_ascii :: "char \<Rightarrow> string" where
  "quote_ascii c =
     (if c = CHR 0x22 \<or> c = CHR 0x5C then [CHR 0x5C, c]
      else if c = CHR 0x08 then [CHR 0x5C, CHR ''b'']
      else if c = CHR 0x0C then [CHR 0x5C, CHR ''f'']
      else if c = CHR 0x0A then [CHR 0x5C, CHR ''n'']
      else if c = CHR 0x0D then [CHR 0x5C, CHR ''r'']
      else if c = CHR 0x09 then [CHR 0x5C, CHR ''t'']
      else if byte c < 0x20 \<or> c = CHR ''<'' \<or> c = CHR ''>'' \<or> c = CHR ''&'' then unicode_escape (byte c)
      else [c])"

definition quote_rune :: "string \<Rightarrow> string" where
  "quote_rune r =
     (if r = [CHR 0xE2, CHR 0x80, CHR 0xA8] then unicode_escape 0x2028
      else if r = [CHR 0xE2, CHR 0x80, CHR 0xA9] then unicode_escape 0x2029
      else r)"

function quote :: "string \<Rightarrow> string" where
  "quote [] = []"
| "quote (c # s) =
     (if byte c < 0x80 then quote_ascii c @ quote s
      else (let n = rune_size (c # s)
            in if n = 0 then unicode_escape 0xFFFD @ quote s
               else quote_rune (take n (c # s)) @ quote (drop (n - 1) s)))"
  by pat_completeness auto
termination by (relation "measure length") auto

definition quoted :: "string \<Rightarrow> string" where
  "quoted s = CHR 0x22 # quote s @ [CHR 0x22]"

text \<open>Reading a string back, after its opening quote: its value and what follows the closing one.\<close>

definition unhex :: "char \<Rightarrow> nat option" where
  "unhex c =
     (let b = byte c in
      if 48 \<le> b \<and> b \<le> 57 then Some (b - 48)
      else if 97 \<le> b \<and> b \<le> 102 then Some (b - 87)
      else if 65 \<le> b \<and> b \<le> 70 then Some (b - 55)
      else None)"

fun hex4 :: "string \<Rightarrow> nat option" where
  "hex4 [a, b, c, d] =
     (case (unhex a, unhex b, unhex c, unhex d) of
        (Some w, Some x, Some y, Some z) \<Rightarrow> Some (((w * 16 + x) * 16 + y) * 16 + z)
      | _ \<Rightarrow> None)"
| "hex4 _ = None"

definition encode_rune :: "nat \<Rightarrow> string" where
  "encode_rune n =
     map char_of
       (if n < 0x80 then [n]
        else if n < 0x800 then [0xC0 + n div 64, 0x80 + n mod 64]
        else if n < 0x10000 then [0xE0 + n div 4096, 0x80 + n div 64 mod 64, 0x80 + n mod 64]
        else [0xF0 + n div 262144, 0x80 + n div 4096 mod 64, 0x80 + n div 64 mod 64, 0x80 + n mod 64])"

definition escaped :: "char \<Rightarrow> char option" where
  "escaped c =
     map_of [(CHR 0x22, CHR 0x22), (CHR 0x5C, CHR 0x5C), (CHR ''/'', CHR ''/''), (CHR ''b'', CHR 0x08),
             (CHR ''f'', CHR 0x0C), (CHR ''n'', CHR 0x0A), (CHR ''r'', CHR 0x0D), (CHR ''t'', CHR 0x09)] c"

text \<open>The code unit of an escape \<open>\u....\<close>; a pair of surrogates is one rune, a single one is replaced.\<close>

definition unit_at :: "string \<Rightarrow> nat option" where
  "unit_at s = (if take 2 s = [CHR 0x5C, CHR ''u''] then hex4 (take 4 (drop 2 s)) else None)"

definition rune_of_escape :: "string \<Rightarrow> (string \<times> nat) option" where
  "rune_of_escape s =
     (case unit_at s of
        None \<Rightarrow> None
      | Some u \<Rightarrow>
          (if 0xD800 \<le> u \<and> u < 0xDC00 then
             (case unit_at (drop 6 s) of
                Some v \<Rightarrow> if 0xDC00 \<le> v \<and> v < 0xE000
                          then Some (encode_rune (0x10000 + (u - 0xD800) * 1024 + (v - 0xDC00)), 12)
                          else Some (encode_rune 0xFFFD, 6)
              | None \<Rightarrow> Some (encode_rune 0xFFFD, 6))
           else if 0xDC00 \<le> u \<and> u < 0xE000 then Some (encode_rune 0xFFFD, 6)
           else Some (encode_rune u, 6)))"

definition prepend :: "string \<Rightarrow> (string \<times> string) option \<Rightarrow> (string \<times> string) option" where
  "prepend x y = map_option (\<lambda>(s, r). (x @ s, r)) y"

function unquote :: "string \<Rightarrow> (string \<times> string) option" where
  "unquote [] = None"
| "unquote (c # s) =
     (if c = CHR 0x22 then Some ([], s)
      else if c = CHR 0x5C then
        (case rune_of_escape (c # s) of
           Some (x, n) \<Rightarrow> prepend x (unquote (drop (n - 1) s))
         | None \<Rightarrow>
             (case s of
                e # s' \<Rightarrow> (case escaped e of Some d \<Rightarrow> prepend [d] (unquote s') | None \<Rightarrow> None)
              | [] \<Rightarrow> None))
      else if byte c < 0x20 then None
      else if rune_size (c # s) = 0 then prepend (encode_rune 0xFFFD) (unquote s)
      else prepend (take (rune_size (c # s)) (c # s)) (unquote (drop (rune_size (c # s) - 1) s)))"
  by pat_completeness auto
termination by (relation "measure length") auto

declare valid_utf8.simps(2) [simp del] quote.simps(2) [simp del] unquote.simps(2) [simp del]

lemma unhex_hex: "n < 16 \<Longrightarrow> unhex (hex n) = Some n"
  by (simp add: unhex_def hex_def Let_def)

lemma unit_at_escape:
  assumes "n < 65536"
  shows "unit_at (unicode_escape n @ s) = Some n"
proof -
  have d: "n div 256 = n div 16 div 16" "n div 4096 = n div 16 div 16 div 16" by (simp_all flip: div_mult2_eq)
  have small: "n div 4096 < 16" using assms by (simp add: less_mult_imp_div_less)
  then have "((n div 4096 mod 16 * 16 + n div 256 mod 16) * 16 + n div 16 mod 16) * 16 + n mod 16 = n"
    unfolding d by simp
  with small show ?thesis by (simp add: unit_at_def unicode_escape_def unhex_hex)
qed

lemma unquote_unicode:
  assumes "n < 0xD800 \<or> n = 0xFFFD"
  shows "unquote (unicode_escape n @ s) = prepend (encode_rune n) (unquote s)"
proof -
  from assms have "rune_of_escape (unicode_escape n @ s) = Some (encode_rune n, 6)"
    by (auto simp: rune_of_escape_def unit_at_escape)
  then show ?thesis by (simp add: unicode_escape_def unquote.simps(2))
qed

lemma encode_ascii: "byte c < 0x80 \<Longrightarrow> encode_rune (byte c) = [c]"
  by (simp add: encode_rune_def)

lemma no_unit: "e \<noteq> CHR ''u'' \<Longrightarrow> rune_of_escape (CHR 0x5C # e # s) = None"
  by (simp add: rune_of_escape_def unit_at_def)

lemma unquote_ascii:
  assumes "byte c < 0x80"
  shows "unquote (quote_ascii c @ s) = prepend [c] (unquote s)"
proof (cases "byte c < 0x20 \<or> c = CHR ''<'' \<or> c = CHR ''>'' \<or> c = CHR ''&''")
  case True
  have "byte c < 0xD800" using assms by simp
  with True show ?thesis
    using unquote_unicode [of "byte c" s] encode_ascii [OF assms]
    by (auto simp: quote_ascii_def unquote.simps(2) no_unit escaped_def byte_def)
next
  case False
  with assms show ?thesis
    by (auto simp: quote_ascii_def unquote.simps(2) no_unit escaped_def byte_def)
qed

text \<open>What a client reads: the string with every byte that is not UTF-8 replaced.\<close>

function to_valid :: "string \<Rightarrow> string" where
  "to_valid [] = []"
| "to_valid (c # s) =
     (if rune_size (c # s) = 0 then encode_rune 0xFFFD @ to_valid s
      else take (rune_size (c # s)) (c # s) @ to_valid (drop (rune_size (c # s) - 1) s))"
  by pat_completeness auto
termination by (relation "measure length") auto

declare to_valid.simps(2) [simp del]

lemma to_valid_id: "valid_utf8 s \<Longrightarrow> to_valid s = s"
proof (induction s rule: valid_utf8.induct)
  case (2 c s)
  then show ?case
    by (cases "rune_size (c # s)") (simp_all add: valid_utf8.simps(2) to_valid.simps(2))
qed simp

lemma unquote_rune:
  assumes "0x80 \<le> byte c" and "0 < rune_size (c # s)"
  shows "unquote (quote_rune (take (rune_size (c # s)) (c # s)) @ t) = prepend (take (rune_size (c # s)) (c # s)) (unquote t)"
proof -
  let ?r = "take (rune_size (c # s)) (c # s)"
  obtain r where r: "?r = c # r" using assms(2) by (cases "rune_size (c # s)") simp_all
  have size: "rune_size (?r @ t) = rune_size (c # s)" "length ?r = rune_size (c # s)"
    using rune_size_append [of ?r t] rune_size_take [OF assms(2)] assms(2) rune_size_le [of "c # s"] by simp_all
  have "encode_rune 0x2028 = [CHR 0xE2, CHR 0x80, CHR 0xA8]" "encode_rune 0x2029 = [CHR 0xE2, CHR 0x80, CHR 0xA9]"
    by (simp_all add: encode_rune_def char_of_def bit_0)
  moreover have "unquote (?r @ t) = prepend ?r (unquote t)" if "quote_rune ?r = ?r"
  proof -
    from assms(1) have "c \<noteq> CHR 0x22" "c \<noteq> CHR 0x5C" "\<not> byte c < 0x20" by (auto simp: byte_def)
    with size assms(2) show ?thesis unfolding r by (simp add: unquote.simps(2)) (metis append_eq_conv_conj length_Cons drop_Suc_Cons diff_Suc_1 Suc_pred take_Suc_Cons)
  qed
  ultimately show ?thesis
    using unquote_unicode [of "0x2028" t] unquote_unicode [of "0x2029" t] by (auto simp: quote_rune_def)
qed

lemma unquote_quote: "unquote (quote s @ CHR 0x22 # r) = Some (to_valid s, r)"
proof (induction s rule: quote.induct)
  case 1
  show ?case by (simp add: unquote.simps(2))
next
  case (2 c s)
  consider (ascii) "byte c < 0x80" | (bad) "0x80 \<le> byte c" "rune_size (c # s) = 0"
    | (rune) "0x80 \<le> byte c" "0 < rune_size (c # s)" by linarith
  then show ?case
  proof cases
    case ascii
    with 2(1) unquote_ascii [of c "quote s @ CHR 0x22 # r"] show ?thesis
      by (simp add: quote.simps(2) to_valid.simps(2) prepend_def)
  next
    case bad
    with 2(2) unquote_unicode [of "0xFFFD" "quote s @ CHR 0x22 # r"] show ?thesis
      by (simp add: quote.simps(2) to_valid.simps(2) prepend_def)
  next
    case rune
    with 2(3) unquote_rune [of c s "quote (drop (rune_size (c # s) - 1) s) @ CHR 0x22 # r"] show ?thesis
      by (simp add: quote.simps(2) to_valid.simps(2) prepend_def Let_def del: rune_size.simps)
  qed
qed

section \<open>Documents\<close>

datatype json = JString string | JArray "json list" | JObject "(string \<times> json) list"

fun commas :: "string list \<Rightarrow> string" where
  "commas [] = []"
| "commas [x] = x"
| "commas (x # y # xs) = x @ CHR '','' # commas (y # xs)"

fun json_text :: "json \<Rightarrow> string" where
  "json_text (JString s) = quoted s"
| "json_text (JArray vs) = CHR ''['' # commas (map json_text vs) @ '']''"
| "json_text (JObject fs) =
     CHR ''{'' # commas (map (\<lambda>(k, v). quoted k @ CHR '':'' # json_text v) fs) @ ''}''"

text \<open>
  A reader of compact documents without numbers and literals; the number bounds the depth and
  the length of what it reads.
\<close>

fun read_value :: "nat \<Rightarrow> string \<Rightarrow> (json \<times> string) option"
  and read_items :: "nat \<Rightarrow> string \<Rightarrow> (json list \<times> string) option"
  and read_fields :: "nat \<Rightarrow> string \<Rightarrow> ((string \<times> json) list \<times> string) option" where
  "read_value 0 s = None"
| "read_value (Suc n) s =
     (case s of
        [] \<Rightarrow> None
      | c # r \<Rightarrow>
          (if c = CHR 0x22 then map_option (\<lambda>(x, r'). (JString x, r')) (unquote r)
           else if c = CHR ''['' then
             (if take 1 r = '']'' then Some (JArray [], drop 1 r)
              else map_option (\<lambda>(vs, r'). (JArray vs, r')) (read_items n r))
           else if c = CHR ''{'' then
             (if take 1 r = ''}'' then Some (JObject [], drop 1 r)
              else map_option (\<lambda>(fs, r'). (JObject fs, r')) (read_fields n r))
           else None))"
| "read_items 0 s = None"
| "read_items (Suc n) s =
     (case read_value n s of
        Some (v, c # r) \<Rightarrow>
          (if c = CHR '','' then map_option (\<lambda>(vs, r'). (v # vs, r')) (read_items n r)
           else if c = CHR '']'' then Some ([v], r)
           else None)
      | _ \<Rightarrow> None)"
| "read_fields 0 s = None"
| "read_fields (Suc n) s =
     (case s of
        [] \<Rightarrow> None
      | q # s' \<Rightarrow>
          (if q \<noteq> CHR 0x22 then None
           else case unquote s' of
             Some (k, c # r) \<Rightarrow>
               (if c \<noteq> CHR '':'' then None
                else case read_value n r of
                  Some (v, c # r) \<Rightarrow>
                    (if c = CHR '','' then map_option (\<lambda>(fs, r'). ((k, v) # fs, r')) (read_fields n r)
                     else if c = CHR ''}'' then Some ([(k, v)], r)
                     else None)
                | _ \<Rightarrow> None)
           | _ \<Rightarrow> None))"

text \<open>White space may follow the document.\<close>

definition json_space :: "char \<Rightarrow> bool" where
  "json_space c \<longleftrightarrow> c \<in> {CHR 0x20, CHR 0x09, CHR 0x0A, CHR 0x0D}"

definition json_read :: "string \<Rightarrow> json option" where
  "json_read s =
     (case read_value (length s) s of
        Some (v, r) \<Rightarrow> if list_all json_space r then Some v else None
      | None \<Rightarrow> None)"

fun clean :: "json \<Rightarrow> json" where
  "clean (JString s) = JString (to_valid s)"
| "clean (JArray vs) = JArray (map clean vs)"
| "clean (JObject fs) = JObject (map (\<lambda>(k, v). (to_valid k, clean v)) fs)"

lemma json_text_first: "\<exists>c t. json_text v = c # t \<and> c \<noteq> CHR '']'' \<and> c \<noteq> CHR ''}''"
  by (cases v) (simp_all add: quoted_def)

lemma commas_first:
  "\<exists>c t. x = c # t \<and> c \<noteq> d \<Longrightarrow> take 1 (commas (x # xs) @ s) \<noteq> [d]"
  by (cases xs) auto

lemma json_read_back:
  "(length (json_text v) \<le> n \<longrightarrow> read_value n (json_text v @ r) = Some (clean v, r)) \<and>
   (vs \<noteq> [] \<longrightarrow> length (commas (map json_text vs)) < n \<longrightarrow>
      read_items n (commas (map json_text vs) @ CHR '']'' # r) = Some (map clean vs, r)) \<and>
   (fs \<noteq> [] \<longrightarrow> length (commas (map (\<lambda>(k, v). quoted k @ CHR '':'' # json_text v) fs)) < n \<longrightarrow>
      read_fields n (commas (map (\<lambda>(k, v). quoted k @ CHR '':'' # json_text v) fs) @ CHR ''}'' # r) =
        Some (map (\<lambda>(k, v). (to_valid k, clean v)) fs, r))"
proof (induction n arbitrary: v vs fs r)
  case 0
  show ?case using json_text_first [of v] by auto
next
  case (Suc n)
  let ?f = "\<lambda>(k, v). quoted k @ CHR '':'' # json_text v"
  have val: "length (json_text v) \<le> n \<Longrightarrow> read_value n (json_text v @ r) = Some (clean v, r)"
    and items: "vs \<noteq> [] \<Longrightarrow> length (commas (map json_text vs)) < n \<Longrightarrow>
      read_items n (commas (map json_text vs) @ CHR '']'' # r) = Some (map clean vs, r)"
    and fields: "fs \<noteq> [] \<Longrightarrow> length (commas (map ?f fs)) < n \<Longrightarrow>
      read_fields n (commas (map ?f fs) @ CHR ''}'' # r) = Some (map (\<lambda>(k, v). (to_valid k, clean v)) fs, r)"
    for v vs fs r using Suc.IH by blast+
  have "read_value (Suc n) (json_text v @ r) = Some (clean v, r)" if "length (json_text v) \<le> Suc n"
  proof (cases v)
    case (JString s)
    then show ?thesis by (simp add: quoted_def unquote_quote)
  next
    case (JArray ws)
    show ?thesis
    proof (cases ws)
      case (Cons w ws')
      with commas_first [of "json_text w" "CHR '']''" "map json_text ws'"] json_text_first [of w]
      have "take 1 (commas (map json_text ws) @ CHR '']'' # r) \<noteq> '']''" by auto
      with items [of ws r] that JArray Cons show ?thesis by (simp del: commas.simps list.map(2) take_Suc_conv_app_nth)
    qed (simp add: JArray)
  next
    case (JObject gs)
    show ?thesis
    proof (cases gs)
      case (Cons g gs')
      with commas_first [of "?f g" "CHR ''}''" "map ?f gs'"]
      have "take 1 (commas (map ?f gs) @ CHR ''}'' # r) \<noteq> ''}''" by (auto simp: quoted_def split: prod.splits)
      with fields [of gs r] that JObject Cons show ?thesis by (simp del: commas.simps list.map(2))
    qed (simp add: JObject)
  qed
  moreover have "read_items (Suc n) (commas (map json_text vs) @ CHR '']'' # r) = Some (map clean vs, r)"
    if "vs \<noteq> []" and "length (commas (map json_text vs)) < Suc n"
  proof (cases vs)
    case (Cons w ws)
    with that val [of w] items [of ws r] show ?thesis by (cases ws) auto
  qed (use that in simp)
  moreover have "read_fields (Suc n) (commas (map ?f fs) @ CHR ''}'' # r) =
      Some (map (\<lambda>(k, v). (to_valid k, clean v)) fs, r)"
    if "fs \<noteq> []" and "length (commas (map ?f fs)) < Suc n"
  proof (cases fs)
    case (Cons g gs)
    obtain k w where "g = (k, w)" by fastforce
    with that Cons val [of w] fields [of gs r] show ?thesis
      by (cases gs) (auto simp: quoted_def unquote_quote)
  qed (use that in simp)
  ultimately show ?case by blast
qed

lemma json_read_text: "list_all json_space r \<Longrightarrow> json_read (json_text v @ r) = Some (clean v)"
  using json_read_back [of v "length (json_text v @ r)" r "[]" "[]"] by (simp add: json_read_def)

section \<open>The bodies\<close>

text \<open>The fields by their tags; \<open>omitempty\<close> leaves out empty strings and lists.\<close>

definition omitempty :: "string \<Rightarrow> string \<Rightarrow> (string \<times> json) list" where
  "omitempty k v = (if v = [] then [] else [(k, JString v)])"

definition detail_json :: "ValidationErrorDetail \<Rightarrow> json" where
  "detail_json d = JObject [(''field'', JString (vd_Field d)), (''message'', JString (vd_Message d))]"

definition response_fields :: "Response \<Rightarrow> (string \<times> json) list" where
  "response_fields r =
     [(''status'', JString (resp_Status r))] @ omitempty ''error'' (resp_Error r) @
     (if resp_Details r = [] then [] else [(''details'', JArray (map detail_json (resp_Details r)))])"

definition save_fields :: "Response \<Rightarrow> string \<Rightarrow> (string \<times> json) list" where
  "save_fields r alias = response_fields r @ omitempty ''alias'' alias"

definition token_fields :: "Response \<Rightarrow> string \<Rightarrow> string \<Rightarrow> (string \<times> json) list" where
  "token_fields r access refresh =
     response_fields r @ [(''access_token'', JString access), (''refresh_token'', JString refresh)]"

fun payload_json :: "payload \<Rightarrow> json" where
  "payload_json (PResponse r) = JObject (response_fields r)"
| "payload_json (PSave r alias) = JObject (save_fields r alias)"
| "payload_json (PTokens r access refresh) = JObject (token_fields r access refresh)"

text \<open>What \<open>render.JSON\<close> sends: its encoder ends every document with a newline.\<close>

definition json_body :: "payload \<Rightarrow> string" where
  "json_body p = json_text (payload_json p) @ [CHR 0x0A]"

text \<open>A client: a missing field is empty.\<close>

fun str_field :: "string \<Rightarrow> json \<Rightarrow> string" where
  "str_field k (JObject fs) = (case map_of fs k of Some (JString s) \<Rightarrow> s | _ \<Rightarrow> [])"
| "str_field k _ = []"

definition detail_of :: "json \<Rightarrow> ValidationErrorDetail" where
  "detail_of v = \<lparr>vd_Field = str_field ''field'' v, vd_Message = str_field ''message'' v\<rparr>"

fun details_of :: "json \<Rightarrow> ValidationErrorDetail list" where
  "details_of (JObject fs) = (case map_of fs ''details'' of Some (JArray vs) \<Rightarrow> map detail_of vs | _ \<Rightarrow> [])"
| "details_of _ = []"

definition response_of :: "json \<Rightarrow> Response" where
  "response_of v = \<lparr>resp_Status = str_field ''status'' v, resp_Error = str_field ''error'' v, resp_Details = details_of v\<rparr>"

fun payload_of :: "payload \<Rightarrow> json \<Rightarrow> payload" where
  "payload_of (PResponse _) v = PResponse (response_of v)"
| "payload_of (PSave _ _) v = PSave (response_of v) (str_field ''alias'' v)"
| "payload_of (PTokens _ _ _) v = PTokens (response_of v) (str_field ''access_token'' v) (str_field ''refresh_token'' v)"

definition response_strings :: "Response \<Rightarrow> string set" where
  "response_strings r = {resp_Status r, resp_Error r} \<union> (\<Union>d \<in> set (resp_Details r). {vd_Field d, vd_Message d})"

fun payload_strings :: "payload \<Rightarrow> string set" where
  "payload_strings (PResponse r) = response_strings r"
| "payload_strings (PSave r alias) = insert alias (response_strings r)"
| "payload_strings (PTokens r access refresh) = {access, refresh} \<union> response_strings r"

lemma key_valid [simp]:
  "to_valid ''status'' = ''status''" "to_valid ''error'' = ''error''" "to_valid ''details'' = ''details''"
  "to_valid ''field'' = ''field''" "to_valid ''message'' = ''message''" "to_valid ''alias'' = ''alias''"
  "to_valid ''access_token'' = ''access_token''" "to_valid ''refresh_token'' = ''refresh_token''"
  by (rule to_valid_id, rule valid_ascii, auto simp: byte_def)+

lemma clean_detail:
  "valid_utf8 (vd_Field d) \<Longrightarrow> valid_utf8 (vd_Message d) \<Longrightarrow> detail_of (clean (detail_json d)) = d"
  by (simp add: detail_json_def detail_of_def to_valid_id)

lemma clean_details:
  "(\<And>d. d \<in> set ds \<Longrightarrow> valid_utf8 (vd_Field d) \<and> valid_utf8 (vd_Message d)) \<Longrightarrow>
   map (detail_of \<circ> clean \<circ> detail_json) ds = ds"
  by (induction ds) (simp_all add: clean_detail)

lemmas body_defs = response_fields_def save_fields_def token_fields_def omitempty_def response_of_def

lemma payload_of_clean:
  assumes "\<forall>s \<in> payload_strings p. valid_utf8 s"
  shows "payload_of p (clean (payload_json p)) = p"
proof -
  obtain r where r: "\<forall>s \<in> response_strings r. valid_utf8 s"
    and p: "p = PResponse r \<or> (\<exists>a. p = PSave r a \<and> valid_utf8 a) \<or>
      (\<exists>a t. p = PTokens r a t \<and> valid_utf8 a \<and> valid_utf8 t)"
    using assms by (cases p) auto
  have valid: "to_valid (resp_Status r) = resp_Status r" "to_valid (resp_Error r) = resp_Error r"
    and ds: "map (detail_of \<circ> (clean \<circ> detail_json)) (resp_Details r) = resp_Details r"
    using r clean_details [of "resp_Details r"] by (auto simp: response_strings_def to_valid_id comp_assoc)
  from p show ?thesis
    by (elim disjE exE conjE; cases "resp_Error r = []"; cases "resp_Details r = []")
      (auto simp: body_defs valid ds to_valid_id)
qed

text \<open>Nothing of a body can be taken for HTML.\<close>

definition html_safe :: "char \<Rightarrow> bool" where
  "html_safe c \<longleftrightarrow> 0x20 \<le> byte c \<and> c \<noteq> CHR ''<'' \<and> c \<noteq> CHR ''>'' \<and> c \<noteq> CHR ''&''"

lemma hex_safe: "n < 16 \<Longrightarrow> html_safe (hex n)"
  by (auto simp: html_safe_def hex_def simp flip: byte_inject) (auto simp: byte_def)

lemma escape_safe: "c \<in> set (unicode_escape n) \<Longrightarrow> html_safe c"
  by (auto simp: unicode_escape_def intro: hex_safe) (auto simp: html_safe_def byte_def)

lemma rune_high:
  "0x80 \<le> byte c \<Longrightarrow> d \<in> set (take (rune_size (c # s)) (c # s)) \<Longrightarrow> 0x80 \<le> byte d"
  by (auto simp: Let_def second_ok_def cont_def numeral_eq_Suc split: if_splits list.splits)

lemma quote_safe: "c \<in> set (quote s) \<Longrightarrow> html_safe c"
proof (induction s rule: quote.induct)
  case (2 d s)
  have high: "html_safe c" if "0x80 \<le> byte c" using that by (auto simp: html_safe_def byte_def)
  have "html_safe c" if "c \<in> set (quote_ascii d)"
    using that escape_safe by (auto simp: quote_ascii_def html_safe_def byte_def split: if_splits)
  moreover have "html_safe c" if "0x80 \<le> byte d" "c \<in> set (quote_rune (take (rune_size (d # s)) (d # s)))"
    using that escape_safe high rune_high [OF that(1)] by (auto simp: quote_rune_def split: if_splits)
  ultimately show ?case
    using 2 escape_safe by (auto simp: quote.simps(2) Let_def simp del: rune_size.simps split: if_splits)
qed simp

lemma commas_set: "c \<in> set (commas xs) \<Longrightarrow> c = CHR '','' \<or> (\<exists>x \<in> set xs. c \<in> set x)"
  by (induction xs rule: commas.induct) auto

lemma punctuation_safe [simp]:
  "html_safe CHR '','' \<and> html_safe CHR '':'' \<and> html_safe CHR ''['' \<and> html_safe CHR '']'' \<and>
   html_safe CHR ''{'' \<and> html_safe CHR ''}'' \<and> html_safe CHR 0x22"
  by (simp add: html_safe_def byte_def)

lemma quoted_safe: "c \<in> set (quoted s) \<Longrightarrow> html_safe c"
  by (auto simp: quoted_def dest: quote_safe)

lemma text_safe: "c \<in> set (json_text v) \<Longrightarrow> html_safe c"
proof (induction v rule: json_text.induct)
  case (1 s)
  then show ?case using quoted_safe by simp
next
  case (2 vs)
  then show ?case by (auto dest!: commas_set)
next
  case (3 fs)
  then show ?case by (auto dest!: commas_set) (erule quoted_safe)
qed

section \<open>Properties\<close>

text \<open>
  C33. What a handler answers is what a client reads. Of every value whose strings are valid UTF-8,
  the body that is sent is a JSON document from which the fields, read by their tags, are those of
  the value, an omitted field standing for an empty one. And whatever the strings are, valid or
  not, the body is one line: it ends with a newline, before which there is no control character,
  no angle bracket and no ampersand.
\<close>

theorem bodies_read_back:
  "((\<forall>s \<in> payload_strings p. valid_utf8 s) \<longrightarrow> map_option (payload_of p) (json_read (json_body p)) = Some p) \<and>
   (\<exists>line. json_body p = line @ [CHR 0x0A] \<and>
      {c \<in> set line. byte c < 0x20 \<or> c \<in> {CHR ''<'', CHR ''>'', CHR ''&''}} = {})"
proof (intro conjI impI)
  assume valid: "\<forall>s \<in> payload_strings p. valid_utf8 s"
  show "map_option (payload_of p) (json_read (json_body p)) = Some p"
    by (simp add: json_body_def json_read_text json_space_def payload_of_clean [OF valid])
next
  have "{c \<in> set (json_text (payload_json p)). byte c < 0x20 \<or> c \<in> {CHR ''<'', CHR ''>'', CHR ''&''}} = {}"
    using text_safe [of _ "payload_json p"] by (fastforce simp: html_safe_def)
  then show "\<exists>line. json_body p = line @ [CHR 0x0A] \<and>
      {c \<in> set line. byte c < 0x20 \<or> c \<in> {CHR ''<'', CHR ''>'', CHR ''&''}} = {}"
    by (intro exI [of _ "json_text (payload_json p)"] conjI) (simp add: json_body_def)
qed

theorem bodies_read_back_witness:
  "let p = PResponse (ValidationError [\<lparr>fe_Field = ''Alias'', fe_Tag = ''min'', fe_Param = ''<4>''\<rparr>])
   in map_option (payload_of p) (json_read (json_body p)) = Some p"
proof -
  let ?p = "PResponse (ValidationError [\<lparr>fe_Field = ''Alias'', fe_Tag = ''min'', fe_Param = ''<4>''\<rparr>])"
  have "valid_utf8 s" if "s \<in> payload_strings ?p" for s
    using that by (intro valid_ascii) (auto simp: response_strings_def ValidationError_def ToLower_def lower_char_def
      validationMessage_def byte_def Let_def)
  then show ?thesis using bodies_read_back [of ?p] by simp
qed

end
