(* ===== verification/Spec2Isabelle.thy ===== *)
theory Spec2Isabelle
  imports Deployment Interleaving_Properties Limiter_Threads Wire_Graph Json_Text
begin

text \<open>
  Verification of the URL shortener: a Go service that stores links under aliases in Postgres,
  caches them in Redis, redirects to them over HTTP, and leaves accounts to an external sso
  service. All paths below are under \<open>src/\<close>.

  \<^bold>\<open>The program and the theories.\<close> The theories follow the code from the inside out.

  \<^item> The language and its libraries as the code uses them: \<open>Prelude\<close> (calls as functions from a
    world to a result and the next world, shared facts on lists and maps), \<open>Go_Errors\<close> (the
    sentinel errors of all packages, wrapping, \<open>errors.Is\<close>, \<open>errors.As\<close>, gRPC statuses),
    \<open>Go_Std\<close> (strings, \<open>TrimSpace\<close> with its Unicode spaces), \<open>Go_Net\<close> (\<open>url.Parse\<close>,
    \<open>net.SplitHostPort\<close>, \<open>http.Redirect\<close>), \<open>Go_Context\<close> (times, durations, contexts and their
    deadlines), \<open>Go_Float\<close> (rounding to float64).

  \<^item> The alias generator, \<open>pkg/random\<close>: \<open>Random_Alias\<close>, with \<open>io.ReadFull\<close> as a partial function
    and bytes as \<open>8 word\<close>.

  \<^item> Storage: \<open>Storage_Spec\<close> states what a store of links promises; \<open>Postgres\<close> is
    \<open>internal/storage/postgres/repository.go\<close>, \<open>Redis_Cache\<close> is \<open>internal/storage/redis/cache.go\<close>
    with its circuit breaker, and \<open>Storage_Init\<close> opens and closes both. \<open>Backend\<close> is an
    executable database and Redis with a fault schedule. \<open>Cache_Properties\<close> has the properties of
    the cache for one call at a time, \<open>Interleaving\<close> and \<open>Interleaving_Properties\<close> those of many
    calls at once, in which every call is a sequence of steps.

  \<^item> The business logic, \<open>internal/service/url\<close>: \<open>Service\<close> and \<open>Service_Properties\<close>.

  \<^item> HTTP, \<open>internal/transport/http\<close>: \<open>Response\<close>, \<open>Json_Text\<close> (the text of a body, by the struct
    tags, and what a client reads from it), \<open>Validation\<close>, \<open>Handlers\<close> (\<open>url.go\<close> and
    \<open>health.go\<close>) with \<open>Handler_Properties\<close>, \<open>Auth_Handlers\<close> (\<open>handlers.go\<close>), \<open>Ratelimit\<close> (the
    limiter as a sequence of whole calls and passes of the sweeper), \<open>Limiter_Threads\<close> (the same
    code statement by statement, as threads that share the mutex and the clock),
    \<open>Authn\<close> (with \<open>internal/authn\<close>), and \<open>Router\<close> (\<open>router.go\<close>, the request logger,
    \<open>reqid\<close>, \<open>pkg/logger/sl\<close>). \<open>Site\<close> has the properties of the assembled router.

  \<^item> Accounts, \<open>internal/ssoclient\<close>: \<open>Ssoclient\<close>.

  \<^item> Start-up and shutdown: \<open>App_Config\<close> (\<open>internal/config\<close>), \<open>Bootstrap\<close> (the providers and
    injectors of \<open>internal/bootstrap\<close>, \<open>server.go\<close>) with \<open>Bootstrap_Properties\<close>, \<open>Wire_Graph\<close>
    (the provider sets of \<open>wire.go\<close> and the calls of \<open>wire_gen.go\<close> as data), and \<open>App_Main\<close>
    (\<open>internal/app\<close> as a step relation of its two goroutines, and \<open>cmd/url-shortener\<close>).

  \<^item> \<open>Deployment\<close> composes all of this: what the application that \<open>InitializeApp\<close> returns does
    with any sequence of requests.

  \<^bold>\<open>State and operations.\<close> A struct is a record, and what it points to is part of a world that
  the operations pass on: the breaker of the cache is the first half of \<open>'w cached\<close>, the two
  limiters that the closures of \<open>NewRouter\<close> hold are fields of \<open>'w web\<close>, and the world \<open>'w\<close>
  below them is that of the servers, the clock and the other libraries. An operation keeps the
  name of its method, after the type it belongs to (\<open>Cache_Get\<close>, \<open>AuthHandler_Login\<close>). A router
  is a record of its middlewares, its routes and the routers mounted in it; the middlewares of a
  mounted one, such as the limiter of \<open>/auth\<close>, run before it looks for a route, and what is
  matched is the encoded path where a request has one (\<open>route_path\<close>), as chi does. Errors
  are values of a sum or option type; \<open>outcome\<close> and \<open>handled\<close> add panics, among them the one
  with \<open>http.ErrAbortHandler\<close>, and calls that never return. Machine integers that can wrap are words: random bytes, \<open>UnixNano\<close> and the breaker's
  deadline, application and user ids.

  \<^bold>\<open>Interfaces.\<close> What a component relies on is a locale, interpreted on the model's own
  definitions or, for a library, on an executable instance: \<open>alias_source\<close>, \<open>link_store\<close>,
  \<open>link_reader\<close> and \<open>guarded_store\<close> (the stores, met by the repository and by the cache over
  it), \<open>pg_server\<close>, \<open>redis_server\<close>, \<open>cached_store\<close> and \<open>cached_deployment\<close> (the servers and
  the cache in its place), \<open>url_service\<close>, \<open>resolving_service\<close> and \<open>guarded_service\<close>,
  \<open>validator_engine\<close>, \<open>jwt_library\<close>, \<open>grpc_conn\<close>, \<open>chi_library\<close>, \<open>float_rounding\<close>,
  \<open>resource_log\<close> (what opening and closing are), \<open>guarded_site\<close>, \<open>protected_site\<close> and
  \<open>safe_web\<close> (handlers and router), and \<open>deployment\<close>, which gathers what the assembled
  application relies on.

  \<^bold>\<open>What is shown.\<close> Links: what is saved is what is read back, by the code \<open>POST /url\<close> and
  \<open>GET /{alias}\<close> run, if the cache agreed with the database before; each status code means what
  it should for the stored links; cache and database agree through calls one after the other, as
  long as the breaker does not trip and no delete fails with an unknown outcome; under concurrency a read returns only what
  was stored under its alias, and of the saves of an alias at most one succeeds. Safety: redirects
  go to \<open>http\<close> and \<open>https\<close> addresses only, and links change only on requests with a token signed under the configured secret. Generator: its
  output is the accepted samples of the bytes read, unbiased, of the configured length, and it
  returns when enough bytes can be read. Limits: the number of requests a client gets through is
  bounded by burst plus rate times time, up to the rounding of float64, in any interleaving of
  requests and sweeps, which answer as if they ran one after the other; eviction changes no
  decision, no request hangs in the limiter, and each limiter charges only the requests it is there
  for. Bodies: a client reads from an answer what was written, if it is UTF-8, and the answer is
  one line of which nothing can be taken for HTML. Start-up and shutdown: what is opened is closed once, in reverse order; \<open>Run\<close>
  returns on a signal or a listener error only, cannot get stuck, and runs the cleanup last; the
  generated injector is, up to the order of its calls, the only one for the sets it was made from.
  Faults of the code are theorems too: a delete while the breaker is open, or while the alias is
  being read, leaves the link in the cache, where a second delete does not reach it; a configured
  alias length that nothing checks makes aliases that the validation would refuse; a reader gets the error of the context of another one
  whose load it shares; a negative alias length passes the start-up and makes saves panic; the aliases \<open>healthz\<close> and \<open>auth\<close> can be stored and
  not followed; a client is leaked when Redis does not answer at start-up; the README's promise
  that redirects work without the sso variables does not hold.

  \<^bold>\<open>Bounds.\<close> There is no fuel in the model of an operation: the loops of the generator, of
  \<open>io.ReadFull\<close> and of \<open>waitUntilReady\<close> are partial functions, with returning proved from
  readers that deliver and connections whose states change finitely often before any instant,
  which ends a wait that has a deadline; the
  retry loop counts down from \<open>MaxRetries\<close>. The eight steps of \<open>solo\<close> are the longest path of a
  read: look, ask Redis, trip, join, load, look, fill, trip. The number that bounds the JSON reader
  is the length of its text, which is enough for every document that the writer makes.

  \<^bold>\<open>Parameters.\<close> Code that is not in the repository is an argument: pgx, go-redis, singleflight,
  the validator engine, golang-jwt, gRPC and the generated sso client, chi's matching and two of
  its middlewares, cleanenv, golang-migrate; and of the standard library the entropy source, the
  clock, JSON decoding, \<open>mail.ParseAddress\<close>, the run of the HTTP server, signals and flags.

  \<^bold>\<open>Not modelled.\<close> Log lines other than the entry of the request logger, and that entry's byte
  count and duration; the headers of a response other than its \<open>Location\<close>. Requests overlap in
  the limiters (\<open>Limiter_Threads\<close>) and in the cache (\<open>Interleaving\<close>, where a step is one call on
  a server); what lies between the two changes nothing that requests share, and there a request is one step.
  How wire finds an injector is not modelled, only what makes one right. Left out are
  \<open>internal/domain/models.go\<close>, which nothing uses, the mocks, tests and SQL migrations.
\<close>

end
